theory Spec2Isabelle
  imports Main "HOL-Library.AList"
begin

section \<open>Python values used by the sources\<close>

text \<open>
  A Python \<open>dict\<close> keeps its keys in insertion order, and assigning to a key that is
  already present keeps the key's position. It is modelled as an association list whose
  assignment is \<^const>\<open>AList.update\<close> (replace in place, else append).
\<close>

type_synonym ('k, 'v) dict = "('k \<times> 'v) list"

definition dict_set :: "('k, 'v) dict \<Rightarrow> 'k \<Rightarrow> 'v \<Rightarrow> ('k, 'v) dict" where
  "dict_set d k v = AList.update k v d"

definition dict_keys :: "('k, 'v) dict \<Rightarrow> 'k list" where
  "dict_keys d = map fst d"

definition dict_values :: "('k, 'v) dict \<Rightarrow> 'v list" where
  "dict_values d = map snd d"

definition dict_contains :: "'k \<Rightarrow> ('k, 'v) dict \<Rightarrow> bool" where
  "dict_contains k d = (k \<in> set (map fst d))"

text \<open>The exceptions the modelled functions can raise.\<close>

datatype incompatibility = DuplicatedSpecs | DifferentNumberOfSpecs | IncompatibleSpecs

datatype error =
    IncompatibleDependencyError incompatibility
  | InvalidVersionSpec string
  | KeyError string
  | AssertionError
  | IndexError
  | CyclicDependencies
  | FileNotFoundError "string \<times> string"
  | ExecProcessError string

text \<open>TOML values, as far as the generated manifests use them.\<close>

datatype toml = TString string | TArray "toml list" | TTable "(string \<times> toml) list"

section \<open>Startup self-update check (\<open>sbt/__main__.py\<close>)\<close>

datatype log_record = Warning string | Trace string | Error string | Info string | Debug string

text \<open>
  \<open>check_upgrade\<close> reads the module-level \<open>version\<close> and the answer of the registry
  client, \<open>latest_version\<close>, a string or \<open>None\<close>. It logs one record.
\<close>

definition check_upgrade :: "string \<Rightarrow> string option \<Rightarrow> error + log_record list" where
  "check_upgrade version latest_version =
     (case latest_version of
        Some l \<Rightarrow>
          if version \<noteq> l then
            Inr [Warning (''You are using an outdated version of sbt (pbt-simple). The latest version is ''
                          @ l @ '', while you are using '' @ version @ ''.'')]
          else Inr [Trace ''You are using the latest version of sbt (pbt-simple).'']
      | None \<Rightarrow> Inr [Trace ''You are using the latest version of sbt (pbt-simple).''])"

text \<open>
  The click group callback \<open>cli\<close> runs \<open>check_upgrade\<close> and then the chosen subcommand
  is dispatched; \<open>subcommand\<close> stands for the outcome of the dispatched command.
\<close>

definition cli :: "string \<Rightarrow> string option \<Rightarrow> 'r \<Rightarrow> error + (log_record list \<times> 'r)" where
  "cli version latest_version subcommand =
     (case check_upgrade version latest_version of
        Inl e \<Rightarrow> Inl e
      | Inr logs \<Rightarrow> Inr (logs, subcommand))"

definition is_warning :: "log_record \<Rightarrow> bool" where
  "is_warning r = (case r of Warning _ \<Rightarrow> True | _ \<Rightarrow> False)"

section \<open>Packages and dependency constraints\<close>

text \<open>
  \<open>DepConstraint\<close> and \<open>Package\<close> are declared in \<open>sbt/package/package.py\<close>; the fields
  below are the ones the sources read, in the positional order \<open>find_common_specs\<close>
  constructs a \<open>DepConstraint\<close> with.
\<close>

record DepConstraint =
  version_spec :: string
  constraint :: "string option"
  version_spec_field :: "string option"
  origin_spec :: "(string, toml) dict option"

type_synonym DepConstraints = "DepConstraint list"

datatype PackageType = Poetry | Maturin

record Package =
  name :: string
  version :: string
  location :: string
  pkg_include :: "string list"
  dependencies :: "(string, DepConstraints) dict"
  pkg_type :: PackageType

section \<open>Generated manifests (\<open>sbt/commands/install.py\<close>)\<close>

text \<open>
  \<open>sum(int(x != pkg.name) for x in pkg.include) > 0\<close>: the guard of the \<open>packages\<close>
  entry in \<open>install_bare_pkg\<close> and \<open>install_pkg_dependencies\<close>.
\<close>

definition needs_packages_entry :: "Package \<Rightarrow> bool" where
  "needs_packages_entry pkg =
     (sum_list (map (\<lambda>x. if x \<noteq> name pkg then (1::int) else 0) (pkg_include pkg)) > 0)"

text \<open>The \<open>tool.poetry\<close> table both functions build.\<close>

definition tool_poetry_table :: "Package \<Rightarrow> (string \<times> toml) list" where
  "tool_poetry_table pkg =
     [(''name'', TString (name pkg)),
      (''version'', TString (version pkg)),
      (''description'', TString ''''),
      (''authors'', TArray [])]
     @ (if needs_packages_entry pkg
        then [(''packages'', TArray (map (\<lambda>x. TTable [(''include'', TString x)]) (pkg_include pkg)))]
        else [])"

definition build_system_table :: "(string \<times> toml) list" where
  "build_system_table =
     [(''requires'', TArray [TString ''poetry-core>=1.0.0'']),
      (''build-backend'', TString ''poetry.core.masonry.api'')]"

text \<open>
  \<open>serialize_dep_specs\<close>: a bare string for an entry without \<open>origin_spec\<close>, else an
  inline table; a single item is returned alone, several as an array. Assigning to a key
  of the inline table is a dict assignment. The source casts \<open>version_spec_field\<close> to
  \<open>str\<close>: an entry with \<open>origin_spec\<close> is expected to carry its field name.
\<close>

definition serialize_dep_spec :: "DepConstraint \<Rightarrow> toml" where
  "serialize_dep_spec spec =
     (case origin_spec spec of
        None \<Rightarrow> TString (version_spec spec)
      | Some origin \<Rightarrow>
          TTable (fold (\<lambda>(k, v) item. dict_set item k v) origin
                    [(case version_spec_field spec of Some f \<Rightarrow> f | None \<Rightarrow> '''',
                      TString (version_spec spec))]))"

definition serialize_dep_specs :: "DepConstraints \<Rightarrow> toml" where
  "serialize_dep_specs specs =
     (let items = map serialize_dep_spec specs
      in case items of [x] \<Rightarrow> x | _ \<Rightarrow> TArray items)"

text \<open>The document written by \<open>install_bare_pkg\<close>: a list of named tables.\<close>

type_synonym document = "(string \<times> (string \<times> toml) list) list"

definition bare_manifest :: "Package \<Rightarrow> document" where
  "bare_manifest pkg =
     [(''tool.poetry'', tool_poetry_table pkg),
      (''build-system'', build_system_table)]"

text \<open>The document written by \<open>install_pkg_dependencies\<close> for the requirements \<open>deps\<close>.\<close>

definition modified_manifest :: "Package \<Rightarrow> (string, DepConstraints) dict \<Rightarrow> document" where
  "modified_manifest pkg deps =
     [(''tool.poetry'', tool_poetry_table pkg),
      (''tool.poetry.dependencies'',
         fold (\<lambda>(dep, specs) tbl. tbl @ [(dep, serialize_dep_specs specs)]) deps []),
      (''build-system'', build_system_table)]"

text \<open>The \<open>packages\<close> entry of a generated manifest, when it has one.\<close>

definition packages_entry :: "document \<Rightarrow> toml option" where
  "packages_entry doc =
     (case map_of doc ''tool.poetry'' of
        None \<Rightarrow> None
      | Some tbl \<Rightarrow> map_of tbl ''packages'')"

section \<open>Merging two requirement sets (\<open>find_common_specs\<close>)\<close>

text \<open>
  \<open>parse_version_spec\<close>, \<open>VersionSpec.intersect\<close> and \<open>VersionSpec.to_pep508_string\<close> live
  in modules that \<open>install.py\<close> imports; they are taken as parameters. \<open>'v\<close> is the type of
  a parsed version spec. \<open>intersect\<close> returns \<open>None\<close> where the source's raises the
  \<open>ValueError\<close> that \<open>find_common_specs\<close> catches.
\<close>

record 'v version_model =
  parse_version_spec :: "string \<Rightarrow> error + 'v"
  intersect :: "'v \<Rightarrow> 'v \<Rightarrow> 'v option"
  to_pep508_string :: "'v \<Rightarrow> string"

text \<open>\<open>x.constraint or ""\<close>: the dictionary key of an entry.\<close>

definition label :: "DepConstraint \<Rightarrow> string" where
  "label x = (case constraint x of None \<Rightarrow> '''' | Some c \<Rightarrow> (if c = '''' then '''' else c))"

text \<open>\<open>{x.constraint or "": x for x in depspecs}\<close>\<close>

definition specs_by_label :: "DepConstraints \<Rightarrow> (string, DepConstraint) dict" where
  "specs_by_label depspecs = fold (\<lambda>x d. dict_set d (label x) x) depspecs []"

text \<open>
  The loop over \<open>specs.items()\<close>; \<open>newspecs\<close> is the list built so far.
\<close>

fun merge_specs ::
  "'v version_model \<Rightarrow> (string, DepConstraint) dict \<Rightarrow> (string \<times> DepConstraint) list
     \<Rightarrow> DepConstraints \<Rightarrow> error + DepConstraints" where
  "merge_specs vm anotherspecs [] newspecs = Inr newspecs"
| "merge_specs vm anotherspecs ((c, spec) # items) newspecs =
     (case map_of anotherspecs c of
        None \<Rightarrow> Inl (KeyError c)
      | Some anotherspec \<Rightarrow>
          (case parse_version_spec vm (version_spec spec) of
             Inl e \<Rightarrow> Inl e
           | Inr specver \<Rightarrow>
               (case parse_version_spec vm (version_spec anotherspec) of
                  Inl e \<Rightarrow> Inl e
                | Inr anotherspecver \<Rightarrow>
                    (case intersect vm specver anotherspecver of
                       None \<Rightarrow> Inl (IncompatibleDependencyError IncompatibleSpecs)
                     | Some common \<Rightarrow>
                         merge_specs vm anotherspecs items
                           (newspecs @
                            [\<lparr>version_spec = to_pep508_string vm common,
                              constraint = Some c,
                              version_spec_field = version_spec_field spec,
                              origin_spec = origin_spec spec\<rparr>])))))"

definition find_common_specs ::
  "'v version_model \<Rightarrow> DepConstraints \<Rightarrow> DepConstraints \<Rightarrow> error + DepConstraints" where
  "find_common_specs vm depspecs another_depspecs =
     (let specs = specs_by_label depspecs;
          anotherspecs = specs_by_label another_depspecs
      in if \<not> (length specs = length depspecs \<and> length anotherspecs = length another_depspecs)
         then Inl (IncompatibleDependencyError DuplicatedSpecs)
         else if set (dict_keys specs) \<noteq> set (dict_keys anotherspecs)
         then Inl (IncompatibleDependencyError DifferentNumberOfSpecs)
         else merge_specs vm anotherspecs specs [])"

text \<open>
  The words of the merge rule, for comparison with the code: the entry of the other side
  with the same label, the intersection of two entries' version specs (\<open>None\<close> when it is
  contradictory; the rule is about texts that parse), whether some pair of entries with
  one label is contradictory, and the merged entry.
\<close>

definition same_label_entry :: "DepConstraints \<Rightarrow> DepConstraint \<Rightarrow> DepConstraint option" where
  "same_label_entry another_depspecs x = find (\<lambda>y. label y = label x) another_depspecs"

definition common_version ::
  "'v version_model \<Rightarrow> DepConstraint \<Rightarrow> DepConstraint \<Rightarrow> 'v option" where
  "common_version vm x y =
     (case (parse_version_spec vm (version_spec x), parse_version_spec vm (version_spec y)) of
        (Inr a, Inr b) \<Rightarrow> intersect vm a b
      | _ \<Rightarrow> None)"

definition contradictory ::
  "'v version_model \<Rightarrow> DepConstraints \<Rightarrow> DepConstraints \<Rightarrow> bool" where
  "contradictory vm depspecs another_depspecs =
     list_ex (\<lambda>x. list_ex (\<lambda>y. label y = label x \<and> common_version vm x y = None)
                     another_depspecs) depspecs"

definition merged_entry ::
  "'v version_model \<Rightarrow> DepConstraints \<Rightarrow> DepConstraint \<Rightarrow> DepConstraint" where
  "merged_entry vm another_depspecs x =
     \<lparr>version_spec =
        (case same_label_entry another_depspecs x of
           None \<Rightarrow> version_spec x
         | Some y \<Rightarrow>
             (case common_version vm x y of
                None \<Rightarrow> version_spec x
              | Some common \<Rightarrow> to_pep508_string vm common)),
      constraint = Some (label x),
      version_spec_field = version_spec_field x,
      origin_spec = origin_spec x\<rparr>"

definition parses :: "'v version_model \<Rightarrow> DepConstraint \<Rightarrow> bool" where
  "parses vm x = (case parse_version_spec vm (version_spec x) of Inl _ \<Rightarrow> False | Inr _ \<Rightarrow> True)"

text \<open>An entry with its absent label written as the empty label.\<close>

definition with_empty_label :: "DepConstraint \<Rightarrow> DepConstraint" where
  "with_empty_label x = (case constraint x of None \<Rightarrow> x\<lparr>constraint := Some ''''\<rparr> | Some _ \<Rightarrow> x)"

text \<open>
  A small version model for the concrete examples: a parsed spec is its list of clauses,
  two specs are contradictory when the clauses \<open><1.0\<close> and \<open>>=1.0\<close> meet, and a spec is
  rendered with commas between its clauses.
\<close>

definition example_model :: "string list version_model" where
  "example_model =
     \<lparr>parse_version_spec = (\<lambda>s. if s = '''' then Inl (InvalidVersionSpec s) else Inr [s]),
      intersect = (\<lambda>a b. if ''<1.0'' \<in> set (a @ b) \<and> ''>=1.0'' \<in> set (a @ b)
                           then None else Some (a @ b)),
      to_pep508_string = (\<lambda>a. foldr (\<lambda>c s. if s = '''' then c else c @ '','' @ s) a '''')\<rparr>"

definition example_spec :: "string \<Rightarrow> string option \<Rightarrow> DepConstraint" where
  "example_spec v c =
     \<lparr>version_spec = v, constraint = c, version_spec_field = None, origin_spec = None\<rparr>"

text \<open>
  Whether the entry \<open>x\<close> is contradictory with the first entry of the other side that has
  its label.
\<close>

definition clash :: "'v version_model \<Rightarrow> DepConstraints \<Rightarrow> DepConstraint \<Rightarrow> bool" where
  "clash vm ys x = (case find (\<lambda>y. label y = label x) ys of None \<Rightarrow> False
                    | Some y \<Rightarrow> common_version vm x y = None)"

section \<open>Files and external commands\<close>

text \<open>
  A path is a directory and a file name in it (\<open>pkg.location / "pyproject.toml"\<close>). A
  file holds either a document written with \<open>dumps\<close> or other bytes. The world the
  install functions act on is the file system together with the list of external commands
  run so far: the command line, its working directory and the virtual environment put into
  its environment variables.
\<close>

type_synonym path = "string \<times> string"

datatype content = Dumps document | Bytes string

type_synonym filesystem = "path \<Rightarrow> content option"

record world =
  files :: filesystem
  calls :: "(string \<times> string \<times> string) list"

text \<open>
  What \<open>install.py\<close> gets from outside: the effect of an external command on the files
  and whether it exits with status zero, \<open>venv_path\<close> (for the configured interpreter and
  environments root), and the configuration's \<open>pkg_cache_dir\<close>.
\<close>

record system =
  run_command :: "string \<Rightarrow> string \<Rightarrow> string \<Rightarrow> filesystem \<Rightarrow> bool \<times> filesystem"
  venv_path :: "string \<Rightarrow> string \<Rightarrow> string"
  pkg_cache_dir :: "Package \<Rightarrow> string"

type_synonym 'a action = "world \<Rightarrow> (error + 'a) \<times> world"

text \<open>\<open>exec\<close> raises \<open>ExecProcessError\<close> when the command exits with a non-zero status.\<close>

definition exec :: "system \<Rightarrow> string \<Rightarrow> string \<Rightarrow> string \<Rightarrow> unit action" where
  "exec sys cmd cwd venv w =
     (let r = run_command sys cmd cwd venv (files w);
          w' = \<lparr>files = snd r, calls = calls w @ [(cmd, cwd, venv)]\<rparr>
      in (if fst r then Inr () else Inl (ExecProcessError cmd), w'))"

definition exists_file :: "path \<Rightarrow> world \<Rightarrow> bool" where
  "exists_file p w = (files w p \<noteq> None)"

text \<open>\<open>os.rename\<close> (POSIX): an existing destination file is replaced.\<close>

definition rename :: "path \<Rightarrow> path \<Rightarrow> unit action" where
  "rename src dst w =
     (case files w src of
        None \<Rightarrow> (Inl (FileNotFoundError src), w)
      | Some c \<Rightarrow>
          if src = dst then (Inr (), w)
          else (Inr (), w\<lparr>files := (files w)(src := None, dst := Some c)\<rparr>))"

text \<open>\<open>shutil.copy\<close> to a file path.\<close>

definition copy :: "path \<Rightarrow> path \<Rightarrow> unit action" where
  "copy src dst w =
     (case files w src of
        None \<Rightarrow> (Inl (FileNotFoundError src), w)
      | Some c \<Rightarrow> (Inr (), w\<lparr>files := (files w)(dst := Some c)\<rparr>))"

text \<open>\<open>with open(p, "w") as f: f.write(dumps(doc))\<close> in an existing directory.\<close>

definition write_file :: "path \<Rightarrow> content \<Rightarrow> unit action" where
  "write_file p c w = (Inr (), w\<lparr>files := (files w)(p := Some c)\<rparr>)"

text \<open>Statements in sequence, a guarded statement, and \<open>try: ... finally: ...\<close>.\<close>

definition and_then :: "unit action \<Rightarrow> unit action \<Rightarrow> unit action" where
  "and_then f g w = (case f w of (Inl e, w1) \<Rightarrow> (Inl e, w1) | (Inr u, w1) \<Rightarrow> g w1)"

definition when_do :: "(world \<Rightarrow> bool) \<Rightarrow> unit action \<Rightarrow> unit action" where
  "when_do c f w = (if c w then f w else (Inr (), w))"

definition try_finally :: "unit action \<Rightarrow> unit action \<Rightarrow> unit action" where
  "try_finally body cleanup w =
     (case body w of
        (r, w1) \<Rightarrow> (case cleanup w1 of (Inl e, w2) \<Rightarrow> (Inl e, w2) | (Inr u, w2) \<Rightarrow> (r, w2)))"

text \<open>
  Modelled from the spec: \<open>mask_file\<close> of \<open>sbt/misc.py\<close>, which is not among the sources.
  Section 4.1: on entry it moves the file aside (if present) so a new file can be written
  at that path; on exit (success or failure) it restores the original file, removing the
  new file if no original existed. The place the file is moved to is kept out of the file
  system of the model.
\<close>

definition mask_file :: "path \<Rightarrow> unit action \<Rightarrow> unit action" where
  "mask_file p body w =
     (let original = files w p;
          (r, w1) = body (w\<lparr>files := (files w)(p := None)\<rparr>)
      in (r, w1\<lparr>files := (files w1)(p := original)\<rparr>))"

section \<open>Installing one package (\<open>sbt/commands/install.py\<close>)\<close>

definition install_poetry_package ::
  "system \<Rightarrow> Package \<Rightarrow> string option \<Rightarrow> bool \<Rightarrow> unit action" where
  "install_poetry_package sys pkg virtualenv quiet w =
     (let venv = (case virtualenv of
                    None \<Rightarrow> venv_path sys (name pkg) (location pkg)
                  | Some v \<Rightarrow> v);
          q = (if quiet then '' -q'' else '''');
          checked =
            (if exists_file (location pkg, ''poetry.lock'') w
             then (case exec sys (''poetry check --lock'' @ q) (location pkg) venv w of
                     (Inl (ExecProcessError c), w1) \<Rightarrow>
                       exec sys (''poetry lock --no-update'' @ q) (location pkg) venv w1
                   | r \<Rightarrow> r)
             else (Inr (), w))
      in case checked of
           (Inl e, w2) \<Rightarrow> (Inl e, w2)
         | (Inr u, w2) \<Rightarrow> exec sys (''poetry install'' @ q) (location pkg) venv w2)"

definition install_bare_pkg :: "system \<Rightarrow> Package \<Rightarrow> string option \<Rightarrow> unit action" where
  "install_bare_pkg sys pkg virtualenv =
     mask_file (location pkg, ''pyproject.toml'')
       (mask_file (location pkg, ''poetry.lock'')
          (and_then
             (write_file (location pkg, ''pyproject.toml'') (Dumps (bare_manifest pkg)))
             (install_poetry_package sys pkg virtualenv True)))"

definition install_pkg_dependencies ::
  "system \<Rightarrow> Package \<Rightarrow> (string, DepConstraints) dict \<Rightarrow> string option \<Rightarrow> unit action" where
  "install_pkg_dependencies sys pkg deps virtualenv =
     (let loc = location pkg; cache = pkg_cache_dir sys pkg
      in and_then
           (write_file (cache, ''pyproject.modified.toml'') (Dumps (modified_manifest pkg deps)))
           (try_finally
              (and_then (rename (loc, ''pyproject.toml'') (cache, ''pyproject.origin.toml''))
              (and_then (when_do (exists_file (loc, ''poetry.lock''))
                           (rename (loc, ''poetry.lock'') (cache, ''poetry.origin.lock'')))
              (and_then (copy (cache, ''pyproject.modified.toml'') (loc, ''pyproject.toml''))
              (and_then (when_do (exists_file (cache, ''poetry.modified.lock''))
                           (copy (cache, ''poetry.modified.lock'') (loc, ''poetry.lock'')))
                        (install_poetry_package sys pkg virtualenv False)))))
              (and_then (rename (cache, ''pyproject.origin.toml'') (loc, ''pyproject.toml''))
              (and_then (when_do (exists_file (loc, ''poetry.lock''))
                           (rename (loc, ''poetry.lock'') (cache, ''poetry.modified.lock'')))
                        (when_do (exists_file (cache, ''poetry.origin.lock''))
                           (rename (cache, ''poetry.origin.lock'') (loc, ''poetry.lock'')))))))"

section \<open>The install command\<close>

text \<open>
  The aggregation state of \<open>install\<close>: \<open>thirdparty_pkgs\<close> maps a dependency name to the
  set of local packages that require it and the requirement merged so far.
\<close>

record aggregation =
  thirdparty_pkgs :: "(string, string set \<times> DepConstraints) dict"
  invalid_thirdparty_pkgs :: "string set"

text \<open>
  The body of the inner loop, for the dependency \<open>depname: depspecs\<close> of \<open>pkg\<close>. The set
  of requiring packages is extended in place before \<open>find_common_specs\<close> runs, so it
  keeps the new name when the merge raises. The error message logged there is not part of
  the model.
\<close>

definition aggregate_dependency ::
  "'v version_model \<Rightarrow> (string, Package) dict \<Rightarrow> bool \<Rightarrow> Package
     \<Rightarrow> string \<times> DepConstraints \<Rightarrow> aggregation \<Rightarrow> error + aggregation" where
  "aggregate_dependency vm packages ignore_invalid_dependency pkg dep st =
     (case dep of (depname, depspecs) \<Rightarrow>
        if dict_contains depname packages \<or> depname \<in> invalid_thirdparty_pkgs st then Inr st
        else case map_of (thirdparty_pkgs st) depname of
          None \<Rightarrow>
            Inr (st\<lparr>thirdparty_pkgs := dict_set (thirdparty_pkgs st) depname ({name pkg}, depspecs)\<rparr>)
        | Some (users, specs) \<Rightarrow>
            (let st1 = st\<lparr>thirdparty_pkgs :=
                          dict_set (thirdparty_pkgs st) depname (insert (name pkg) users, specs)\<rparr>
             in case find_common_specs vm specs depspecs of
                  Inr common \<Rightarrow>
                    Inr (st1\<lparr>thirdparty_pkgs :=
                            dict_set (thirdparty_pkgs st1) depname (insert (name pkg) users, common)\<rparr>)
                | Inl (IncompatibleDependencyError k) \<Rightarrow>
                    if ignore_invalid_dependency
                    then Inr (st1\<lparr>invalid_thirdparty_pkgs :=
                                 insert depname (invalid_thirdparty_pkgs st1)\<rparr>)
                    else Inl (IncompatibleDependencyError k)
                | Inl e \<Rightarrow> Inl e))"

text \<open>A \<open>for\<close> loop whose body may raise.\<close>

fun for_each :: "('a \<Rightarrow> 's \<Rightarrow> error + 's) \<Rightarrow> 'a list \<Rightarrow> 's \<Rightarrow> error + 's" where
  "for_each body [] s = Inr s"
| "for_each body (x # xs) s =
     (case body x s of Inl e \<Rightarrow> Inl e | Inr s' \<Rightarrow> for_each body xs s')"

text \<open>Step 1 of \<open>install\<close>: the two nested loops over the discovered packages.\<close>

definition aggregate ::
  "'v version_model \<Rightarrow> (string, Package) dict \<Rightarrow> bool \<Rightarrow> error + aggregation" where
  "aggregate vm packages ignore_invalid_dependency =
     for_each
       (\<lambda>pkg. for_each (aggregate_dependency vm packages ignore_invalid_dependency pkg)
                 (dependencies pkg))
       (dict_values packages)
       \<lparr>thirdparty_pkgs = [], invalid_thirdparty_pkgs = {}\<rparr>"

text \<open>\<open>{depname: depspecs for depname, (_, depspecs) in thirdparty_pkgs.items()}\<close>\<close>

definition merged_requirements :: "aggregation \<Rightarrow> (string, DepConstraints) dict" where
  "merged_requirements st = map (\<lambda>(depname, (users, depspecs)). (depname, depspecs)) (thirdparty_pkgs st)"

text \<open>The loop over \<open>local_dep_pkgs\<close>.\<close>

fun install_local_pkgs :: "system \<Rightarrow> Package list \<Rightarrow> string \<Rightarrow> unit action" where
  "install_local_pkgs sys [] venv w = (Inr (), w)"
| "install_local_pkgs sys (pkg # pkgs) venv w =
     (case install_bare_pkg sys pkg (Some venv) w of
        (Inl e, w1) \<Rightarrow> (Inl e, w1)
      | (Inr u, w1) \<Rightarrow> install_local_pkgs sys pkgs venv w1)"

text \<open>
  \<open>install\<close>, from the discovered \<open>packages\<close> on (configuration loading and package
  discovery are in modules outside these sources).
\<close>

definition install ::
  "system \<Rightarrow> 'v version_model \<Rightarrow> (string, Package) dict \<Rightarrow> string \<Rightarrow> bool \<Rightarrow> unit action" where
  "install sys vm packages package ignore_invalid_dependency w =
     (case aggregate vm packages ignore_invalid_dependency of
        Inl e \<Rightarrow> (Inl e, w)
      | Inr st \<Rightarrow>
          (case map_of packages package of
             None \<Rightarrow> (Inl (KeyError package), w)
           | Some target \<Rightarrow>
               (case install_pkg_dependencies sys target (merged_requirements st) None w of
                  (Inl e, w1) \<Rightarrow> (Inl e, w1)
                | (Inr u, w1) \<Rightarrow>
                    install_local_pkgs sys
                      (filter (\<lambda>pkg. name pkg \<noteq> package) (dict_values packages))
                      (venv_path sys (name target) (location target)) w1)))"

text \<open>
  The external commands leave the two files alone that \<open>install_pkg_dependencies\<close> has
  staged in the package's cache directory.
\<close>

definition keeps_staged_files :: "system \<Rightarrow> Package \<Rightarrow> bool" where
  "keeps_staged_files sys pkg =
     (\<forall>cmd cwd venv fs.
        snd (run_command sys cmd cwd venv fs) (pkg_cache_dir sys pkg, ''pyproject.origin.toml'')
          = fs (pkg_cache_dir sys pkg, ''pyproject.origin.toml'')
      \<and> snd (run_command sys cmd cwd venv fs) (pkg_cache_dir sys pkg, ''poetry.origin.lock'')
          = fs (pkg_cache_dir sys pkg, ''poetry.origin.lock''))"

section \<open>A concrete workspace for the examples\<close>

text \<open>
  Every command writes a lock file into its working directory; it fails in the directory
  \<open>/w/broken\<close> and succeeds elsewhere.
\<close>

definition example_system :: system where
  "example_system =
     \<lparr>run_command = (\<lambda>cmd cwd venv fs.
                       (cwd \<noteq> ''/w/broken'', fs((cwd, ''poetry.lock'') := Some (Bytes ''resolved'')))),
      venv_path = (\<lambda>n loc. ''/venvs/'' @ n),
      pkg_cache_dir = (\<lambda>pkg. ''/cache/'' @ name pkg)\<rparr>"

definition example_pkg :: "string \<Rightarrow> string \<Rightarrow> (string, DepConstraints) dict \<Rightarrow> Package" where
  "example_pkg n loc deps =
     \<lparr>name = n, version = ''0.1.0'', location = loc, pkg_include = [n],
      dependencies = deps, pkg_type = Poetry\<rparr>"

text \<open>A world with a real manifest and a real lock file in each of the directories \<open>locs\<close>.\<close>

definition example_world :: "string list \<Rightarrow> world" where
  "example_world locs =
     \<lparr>files = (\<lambda>p. case p of (dir, file) \<Rightarrow>
                 if dir \<in> set locs \<and> file = ''pyproject.toml'' then Some (Bytes ''real manifest'')
                 else if dir \<in> set locs \<and> file = ''poetry.lock'' then Some (Bytes ''real lock'')
                 else None),
      calls = []\<rparr>"

text \<open>
  \<open>core\<close> requires \<open>numpy\<close>; \<open>api\<close> requires the local package \<open>core\<close> and \<open>requests\<close>.
\<close>

definition example_workspace :: "(string, Package) dict" where
  "example_workspace =
     [(''core'', example_pkg ''core'' ''/w/core'' [(''numpy'', [example_spec ''>=1.0'' None])]),
      (''api'', example_pkg ''api'' ''/w/api''
                 [(''core'', [example_spec ''>=0.1.0'' None]),
                  (''requests'', [example_spec ''>=2.0'' None])])]"

text \<open>The same, with \<open>api\<close> requiring a \<open>numpy\<close> that contradicts the one of \<open>core\<close>.\<close>

definition conflicting_workspace :: "(string, Package) dict" where
  "conflicting_workspace =
     [(''core'', example_pkg ''core'' ''/w/core'' [(''numpy'', [example_spec ''>=1.0'' None])]),
      (''api'', example_pkg ''api'' ''/w/api''
                 [(''core'', [example_spec ''>=0.1.0'' None]),
                  (''numpy'', [example_spec ''<1.0'' None])])]"

text \<open>The dependency table of a manifest file.\<close>

definition manifest_dependencies :: "content option \<Rightarrow> (string \<times> toml) list" where
  "manifest_dependencies c =
     (case c of
        Some (Dumps doc) \<Rightarrow>
          (case map_of doc ''tool.poetry.dependencies'' of None \<Rightarrow> [] | Some tbl \<Rightarrow> tbl)
      | _ \<Rightarrow> [])"

text \<open>
  An action only appends to the list of external commands, and every command it appends
  satisfies \<open>P\<close>.
\<close>

definition appends_calls :: "(string \<times> string \<times> string \<Rightarrow> bool) \<Rightarrow> unit action \<Rightarrow> bool" where
  "appends_calls P f = (\<forall>w. \<exists>cs. calls (snd (f w)) = calls w @ cs \<and> list_all P cs)"

section \<open>The dependency graph (\<open>sbt/package/graph.py\<close>)\<close>

record ThirdPartyPackage =
  tp_name :: string
  tp_type :: PackageType
  invert_dependencies :: "(string, DepConstraints) dict"

text \<open>The \<open>pkg\<close> attribute of a node: \<open>Union[ThirdPartyPackage, Package]\<close>.\<close>

datatype node_data = LocalPkg Package | ThirdPartyPkg ThirdPartyPackage

text \<open>
  \<open>networkx.DiGraph\<close>, as far as \<open>graph.py\<close> uses it: the nodes with their \<open>pkg\<close>
  attribute, in insertion order, and the edges in insertion order, each once. The library
  is not part of the repository; its functions are modelled by their documented behaviour.
\<close>

record DiGraph =
  g_nodes :: "(string, node_data) dict"
  g_edges :: "(string \<times> string) list"

definition empty_graph :: DiGraph where
  "empty_graph = \<lparr>g_nodes = [], g_edges = []\<rparr>"

definition has_node :: "DiGraph \<Rightarrow> string \<Rightarrow> bool" where
  "has_node g n = dict_contains n (g_nodes g)"

text \<open>\<open>g.add_node(n, pkg=d)\<close>: a new node, or a new attribute value for an existing one.\<close>

definition add_node :: "DiGraph \<Rightarrow> string \<Rightarrow> node_data \<Rightarrow> DiGraph" where
  "add_node g n d = g\<lparr>g_nodes := dict_set (g_nodes g) n d\<rparr>"

text \<open>\<open>g.add_edge(u, v)\<close> between two nodes of the graph, as \<open>from_pkgs\<close> calls it.\<close>

definition add_edge :: "DiGraph \<Rightarrow> string \<Rightarrow> string \<Rightarrow> DiGraph" where
  "add_edge g u v = (if (u, v) \<in> set (g_edges g) then g else g\<lparr>g_edges := g_edges g @ [(u, v)]\<rparr>)"

text \<open>The successors of a node, in the order their edges were added.\<close>

definition successors :: "DiGraph \<Rightarrow> string \<Rightarrow> string list" where
  "successors g u = map snd (filter (\<lambda>e. fst e = u) (g_edges g))"

text \<open>
  Depth-first traversal with a stack of pending nodes and the list of visited nodes in the
  order of their first visit. A node is visited when it is taken from the stack unvisited;
  its successors are then pending before everything else.
\<close>

function dfs :: "DiGraph \<Rightarrow> string list \<Rightarrow> string list \<Rightarrow> string list" where
  "dfs g [] visited = visited"
| "dfs g (x # stack) visited =
     (if x \<in> set visited then dfs g stack visited
      else dfs g (successors g x @ stack) (visited @ [x]))"
  by pat_completeness auto
termination
proof
  let ?R = "measures [\<lambda>(g, stack, visited). card ((snd ` set (g_edges g) \<union> set stack) - set visited),
                      \<lambda>(g, stack, visited). length stack]"
  show "wf ?R" by simp
  fix g :: DiGraph and x :: string and stack visited :: "string list"
  {
    assume "x \<in> set visited"
    then have "(snd ` set (g_edges g) \<union> set (x # stack)) - set visited
                 = (snd ` set (g_edges g) \<union> set stack) - set visited"
      by auto
    then show "((g, stack, visited), (g, x # stack, visited)) \<in> ?R" by simp
  }
  {
    assume x: "x \<notin> set visited"
    have sub: "set (successors g x) \<subseteq> snd ` set (g_edges g)"
      by (auto simp: successors_def)
    have "(snd ` set (g_edges g) \<union> set (successors g x @ stack)) - set (visited @ [x])
            \<subset> (snd ` set (g_edges g) \<union> set (x # stack)) - set visited"
      using x sub by auto
    then have "card ((snd ` set (g_edges g) \<union> set (successors g x @ stack)) - set (visited @ [x]))
                 < card ((snd ` set (g_edges g) \<union> set (x # stack)) - set visited)"
      by (intro psubset_card_mono) auto
    then show "((g, successors g x @ stack, visited @ [x]), (g, x # stack, visited)) \<in> ?R" by simp
  }
qed

text \<open>\<open>nx.dfs_preorder_nodes(g, source)\<close>\<close>

definition dfs_preorder_nodes :: "DiGraph \<Rightarrow> string \<Rightarrow> string list" where
  "dfs_preorder_nodes g source = dfs g [source] []"

text \<open>
  \<open>nx.find_cycle(g, orientation="original")\<close> returns the edges of a cycle, or raises
  \<open>NetworkXNoCycle\<close> when the graph has none. The model returns the first edge, in
  insertion order, that lies on a cycle: an edge whose tail is reachable from its head.
\<close>

definition find_cycle :: "DiGraph \<Rightarrow> (string \<times> string) option" where
  "find_cycle g = find (\<lambda>(u, v). u \<in> set (dfs_preorder_nodes g v)) (g_edges g)"

text \<open>\<open>PkgGraph(g)\<close> keeps \<open>g or nx.DiGraph()\<close>; a graph without nodes is falsy.\<close>

type_synonym PkgGraph = DiGraph

definition PkgGraph :: "DiGraph \<Rightarrow> PkgGraph" where
  "PkgGraph g = (if length (g_nodes g) = 0 then empty_graph else g)"

text \<open>
  The body of the inner loop of \<open>from_pkgs\<close>. The \<open>invert_dependencies\<close> of an existing
  third-party node are extended in place.
\<close>

definition link_dependency ::
  "(string, Package) dict \<Rightarrow> Package \<Rightarrow> string \<times> DepConstraints \<Rightarrow> DiGraph \<Rightarrow> error + DiGraph" where
  "link_dependency pkgs pkg d g =
     (case d of (dep, specs) \<Rightarrow>
        if \<not> has_node g dep then
          (if dict_contains dep pkgs then Inl AssertionError
           else Inr (add_edge
                       (add_node g dep
                          (ThirdPartyPkg \<lparr>tp_name = dep, tp_type = pkg_type pkg,
                                           invert_dependencies = [(name pkg, specs)]\<rparr>))
                       (name pkg) dep))
        else
          (case map_of (g_nodes g) dep of
             Some (ThirdPartyPkg dep_pkg) \<Rightarrow>
               Inr (add_edge
                      (add_node g dep
                         (ThirdPartyPkg (dep_pkg\<lparr>invert_dependencies :=
                                            dict_set (invert_dependencies dep_pkg) (name pkg) specs\<rparr>)))
                      (name pkg) dep)
           | _ \<Rightarrow> Inr (add_edge g (name pkg) dep)))"

definition from_pkgs :: "(string, Package) dict \<Rightarrow> error + PkgGraph" where
  "from_pkgs pkgs =
     (let g0 = fold (\<lambda>pkg g. add_node g (name pkg) (LocalPkg pkg)) (dict_values pkgs) empty_graph
      in case for_each (\<lambda>pkg. for_each (link_dependency pkgs pkg) (dependencies pkg))
                (dict_values pkgs) g0 of
           Inl e \<Rightarrow> Inl e
         | Inr g \<Rightarrow>
             (case find_cycle g of
                Some cycles \<Rightarrow> Inl CyclicDependencies
              | None \<Rightarrow> Inr (PkgGraph g)))"

text \<open>\<open>[self.g.nodes[uid]["pkg"] for uid in nodes]\<close>\<close>

fun node_packages :: "DiGraph \<Rightarrow> string list \<Rightarrow> error + node_data list" where
  "node_packages g [] = Inr []"
| "node_packages g (uid # uids) =
     (case map_of (g_nodes g) uid of
        None \<Rightarrow> Inl (KeyError uid)
      | Some d \<Rightarrow>
          (case node_packages g uids of
             Inl e \<Rightarrow> Inl e
           | Inr ds \<Rightarrow> Inr (d # ds)))"

text \<open>
  \<open>PkgGraph.dependencies\<close>; the traversal of a graph from a node it does not have raises
  \<open>KeyError\<close>. The \<open>lru_cache\<close> around it does not change what it returns.
\<close>

definition PkgGraph_dependencies :: "PkgGraph \<Rightarrow> string \<Rightarrow> error + node_data list" where
  "PkgGraph_dependencies g pkg_name =
     (if \<not> has_node g pkg_name then Inl (KeyError pkg_name)
      else case dfs_preorder_nodes g pkg_name of
             [] \<Rightarrow> Inl IndexError
           | n # nodes \<Rightarrow>
               if n \<noteq> pkg_name then Inl AssertionError
               else node_packages g nodes)"

definition third_party_dependencies :: "PkgGraph \<Rightarrow> string \<Rightarrow> error + ThirdPartyPackage list" where
  "third_party_dependencies g pkg_name =
     (case PkgGraph_dependencies g pkg_name of
        Inl e \<Rightarrow> Inl e
      | Inr ds \<Rightarrow>
          Inr (List.map_filter (\<lambda>d. case d of ThirdPartyPkg p \<Rightarrow> Some p | LocalPkg p \<Rightarrow> None) ds))"

definition local_dependencies :: "PkgGraph \<Rightarrow> string \<Rightarrow> error + Package list" where
  "local_dependencies g pkg_name =
     (case PkgGraph_dependencies g pkg_name of
        Inl e \<Rightarrow> Inl e
      | Inr ds \<Rightarrow>
          Inr (List.map_filter (\<lambda>d. case d of LocalPkg p \<Rightarrow> Some p | ThirdPartyPkg p \<Rightarrow> None) ds))"

text \<open>The name a node's package carries.\<close>

definition node_name :: "node_data \<Rightarrow> string" where
  "node_name d = (case d of LocalPkg p \<Rightarrow> name p | ThirdPartyPkg p \<Rightarrow> tp_name p)"

text \<open>
  The dependency relation that the packages declare: a local package and the name of one
  of its dependencies.
\<close>

definition depends_on :: "(string, Package) dict \<Rightarrow> (string \<times> string) set" where
  "depends_on pkgs =
     {(name pkg, dep) | pkg dep. pkg \<in> set (dict_values pkgs) \<and> dep \<in> set (dict_keys (dependencies pkg))}"

text \<open>A dictionary of packages is keyed by the packages' names.\<close>

definition keyed_by_name :: "(string, Package) dict \<Rightarrow> bool" where
  "keyed_by_name pkgs = list_all (\<lambda>(k, pkg). k = name pkg) pkgs"

text \<open>Every node's package carries the node's name.\<close>

definition named_nodes :: "DiGraph \<Rightarrow> bool" where
  "named_nodes g = list_all (\<lambda>(k, d). node_name d = k) (g_nodes g)"

definition is_third_party :: "node_data \<Rightarrow> bool" where
  "is_third_party d = (case d of ThirdPartyPkg p \<Rightarrow> True | LocalPkg p \<Rightarrow> False)"

text \<open>Two local packages that depend on each other.\<close>

definition cyclic_workspace :: "(string, Package) dict" where
  "cyclic_workspace =
     [(''a'', example_pkg ''a'' ''/w/a'' [(''b'', [example_spec ''>=0.1.0'' None])]),
      (''b'', example_pkg ''b'' ''/w/b'' [(''a'', [example_spec ''>=0.1.0'' None])])]"

text \<open>The graph of the example workspace.\<close>

definition example_graph :: DiGraph where
  "example_graph =
     \<lparr>g_nodes =
        [(''core'', LocalPkg (example_pkg ''core'' ''/w/core'' [(''numpy'', [example_spec ''>=1.0'' None])])),
         (''api'', LocalPkg (example_pkg ''api'' ''/w/api''
                               [(''core'', [example_spec ''>=0.1.0'' None]),
                                (''requests'', [example_spec ''>=2.0'' None])])),
         (''numpy'', ThirdPartyPkg \<lparr>tp_name = ''numpy'', tp_type = Poetry,
              invert_dependencies = [(''core'', [example_spec ''>=1.0'' None])]\<rparr>),
         (''requests'', ThirdPartyPkg \<lparr>tp_name = ''requests'', tp_type = Poetry,
              invert_dependencies = [(''api'', [example_spec ''>=2.0'' None])]\<rparr>)],
      g_edges = [(''core'', ''numpy''), (''api'', ''core''), (''api'', ''requests'')]\<rparr>"

section \<open>Properties of the self-update check\<close>

text \<open>
  Claim C9. Whatever the registry query returned (a version string or nothing),
  \<open>check_upgrade\<close> returns normally with one log record, which is a warning exactly when
  a version string came back that differs from the running version; the subcommand is
  dispatched after it in every case.
\<close>

theorem check_upgrade_returns:
  "(\<exists>r. check_upgrade running latest_version = Inr [r]
        \<and> (is_warning r \<longleftrightarrow> (\<exists>l. latest_version = Some l \<and> l \<noteq> running)))
   \<and> (\<exists>logs. cli running latest_version subcommand = Inr (logs, subcommand))"
  by (cases latest_version) (auto simp: check_upgrade_def cli_def is_warning_def)

section \<open>Properties of the generated manifests\<close>

lemma count_differing_nonneg: "0 \<le> sum_list (map (\<lambda>x. if x \<noteq> n then (1::int) else 0) xs)"
  by (rule sum_list_nonneg) auto

lemma count_differing_pos:
  "(sum_list (map (\<lambda>x. if x \<noteq> n then (1::int) else 0) xs) > 0) = list_ex (\<lambda>x. x \<noteq> n) xs"
proof (induction xs)
  case Nil
  then show ?case by simp
next
  case (Cons a xs)
  show ?case
  proof (cases "a = n")
    case True
    with Cons show ?thesis by simp
  next
    case False
    have "0 < 1 + sum_list (map (\<lambda>x. if x \<noteq> n then (1::int) else 0) xs)"
      using count_differing_nonneg [of n xs] by arith
    with False show ?thesis by simp
  qed
qed

lemma needs_packages_entry_iff:
  "needs_packages_entry pkg \<longleftrightarrow> list_ex (\<lambda>x. x \<noteq> name pkg) (pkg_include pkg)"
  by (simp add: needs_packages_entry_def count_differing_pos)

text \<open>
  Claim C7 as stated fails: an include list other than \<open>[name]\<close> whose entries all equal
  the package's name (the empty list, or the name repeated) gets no \<open>packages\<close> entry.
\<close>

theorem packages_entry_counterexample:
  "\<not> (\<forall>pkg deps.
        (pkg_include pkg = [name pkg] \<longrightarrow>
           packages_entry (bare_manifest pkg) = None
           \<and> packages_entry (modified_manifest pkg deps) = None)
      \<and> (pkg_include pkg \<noteq> [name pkg] \<longrightarrow>
           packages_entry (bare_manifest pkg)
             = Some (TArray (map (\<lambda>x. TTable [(''include'', TString x)]) (pkg_include pkg)))
           \<and> packages_entry (modified_manifest pkg deps)
             = Some (TArray (map (\<lambda>x. TTable [(''include'', TString x)]) (pkg_include pkg)))))"
proof
  assume h: "\<forall>pkg deps.
        (pkg_include pkg = [name pkg] \<longrightarrow>
           packages_entry (bare_manifest pkg) = None
           \<and> packages_entry (modified_manifest pkg deps) = None)
      \<and> (pkg_include pkg \<noteq> [name pkg] \<longrightarrow>
           packages_entry (bare_manifest pkg)
             = Some (TArray (map (\<lambda>x. TTable [(''include'', TString x)]) (pkg_include pkg)))
           \<and> packages_entry (modified_manifest pkg deps)
             = Some (TArray (map (\<lambda>x. TTable [(''include'', TString x)]) (pkg_include pkg))))"
  let ?p = "\<lparr>name = ''a'', version = ''1.0'', location = ''/w/a'', pkg_include = [],
             dependencies = [], pkg_type = Poetry\<rparr>"
  from h have "pkg_include ?p \<noteq> [name ?p] \<longrightarrow> packages_entry (bare_manifest ?p) \<noteq> None"
    by (metis option.distinct(1))
  then show False
    by (simp add: packages_entry_def bare_manifest_def tool_poetry_table_def
          needs_packages_entry_def)
qed

text \<open>
  Claim C7, amended. The manifests written by the bare editable install and by the
  merged-manifest render have the same \<open>packages\<close> entry: none when every entry of the
  include list equals the package's name (so none for \<open>[name]\<close>), and otherwise the list
  of all entries of the include list.
\<close>

theorem packages_entry_rule:
  "packages_entry (bare_manifest pkg)
     = (if list_ex (\<lambda>x. x \<noteq> name pkg) (pkg_include pkg)
        then Some (TArray (map (\<lambda>x. TTable [(''include'', TString x)]) (pkg_include pkg)))
        else None)
   \<and> packages_entry (modified_manifest pkg deps) = packages_entry (bare_manifest pkg)"
  by (simp add: packages_entry_def bare_manifest_def modified_manifest_def tool_poetry_table_def
        needs_packages_entry_iff)

section \<open>Properties of \<open>find_common_specs\<close>\<close>

lemma update_fresh: "k \<notin> fst ` set d \<Longrightarrow> AList.update k v d = d @ [(k, v)]"
  by (induction d) auto

lemma specs_fold_keys:
  "fst ` set (fold (\<lambda>x d. dict_set d (label x) x) xs d) = fst ` set d \<union> label ` set xs"
  by (induction xs arbitrary: d) (auto simp: dict_set_def AList.dom_update)

lemma specs_fold_distinct:
  "distinct (map fst d) \<Longrightarrow> distinct (map fst (fold (\<lambda>x d. dict_set d (label x) x) xs d))"
  by (induction xs arbitrary: d) (auto simp: dict_set_def AList.distinct_update)

lemma specs_by_label_length:
  "(length (specs_by_label xs) = length xs) = distinct (map label xs)"
proof -
  have d: "distinct (map fst (specs_by_label xs))"
    unfolding specs_by_label_def by (rule specs_fold_distinct) simp
  have "length (specs_by_label xs) = length (map fst (specs_by_label xs))" by simp
  also have "\<dots> = card (set (map fst (specs_by_label xs)))"
    using d by (simp only: distinct_card)
  also have "\<dots> = card (label ` set xs)"
    by (simp add: specs_by_label_def specs_fold_keys)
  finally have "length (specs_by_label xs) = card (set (map label xs))" by simp
  then show ?thesis
    by (metis card_distinct distinct_card length_map)
qed

lemma specs_fold_distinct_eq:
  "distinct (map label xs) \<Longrightarrow> label ` set xs \<inter> fst ` set d = {} \<Longrightarrow>
   fold (\<lambda>x d. dict_set d (label x) x) xs d = d @ map (\<lambda>x. (label x, x)) xs"
proof (induction xs arbitrary: d)
  case Nil
  then show ?case by simp
next
  case (Cons a xs)
  have a: "label a \<notin> fst ` set d" using Cons.prems by auto
  have step: "dict_set d (label a) a = d @ [(label a, a)]"
    using a by (simp add: dict_set_def update_fresh)
  have "label ` set xs \<inter> fst ` set (d @ [(label a, a)]) = {}"
    using Cons.prems by auto
  with Cons.IH [of "d @ [(label a, a)]"] Cons.prems step show ?case by simp
qed

lemma specs_by_label_distinct:
  "distinct (map label xs) \<Longrightarrow> specs_by_label xs = map (\<lambda>x. (label x, x)) xs"
  using specs_fold_distinct_eq [of xs "[]"] by (simp add: specs_by_label_def)

lemma map_of_labelled: "map_of (map (\<lambda>x. (label x, x)) ys) c = find (\<lambda>y. label y = c) ys"
  by (induction ys) auto


lemma find_label_Some:
  "label x \<in> label ` set ys \<Longrightarrow> \<exists>y. find (\<lambda>y. label y = label x) ys = Some y \<and> y \<in> set ys \<and> label y = label x"
  by (induction ys) auto

lemma parses_Inr: "parses vm x \<Longrightarrow> \<exists>a. parse_version_spec vm (version_spec x) = Inr a"
  by (auto simp: parses_def split: sum.splits)

lemma merge_specs_labelled:
  assumes "list_all (parses vm) xs" "list_all (parses vm) ys" "label ` set xs \<subseteq> label ` set ys"
  shows "merge_specs vm (map (\<lambda>y. (label y, y)) ys) (map (\<lambda>x. (label x, x)) xs) acc =
           (if list_ex (clash vm ys) xs
            then Inl (IncompatibleDependencyError IncompatibleSpecs)
            else Inr (acc @ map (merged_entry vm ys) xs))"
  using assms
proof (induction xs arbitrary: acc)
  case Nil
  then show ?case by simp
next
  case (Cons x xs)
  from Cons.prems obtain y where y: "find (\<lambda>y. label y = label x) ys = Some y" "y \<in> set ys"
    using find_label_Some [of x ys] by auto
  from Cons.prems obtain a where a: "parse_version_spec vm (version_spec x) = Inr a"
    using parses_Inr [of vm x] by auto
  from Cons.prems y obtain b where b: "parse_version_spec vm (version_spec y) = Inr b"
    using parses_Inr [of vm y] by (auto simp: list_all_iff)
  have cv: "common_version vm x y = intersect vm a b"
    by (simp add: common_version_def a b)
  show ?case
  proof (cases "intersect vm a b")
    case None
    then show ?thesis
      by (simp add: map_of_labelled y a b clash_def cv)
  next
    case (Some c)
    have me: "merged_entry vm ys x =
        \<lparr>version_spec = to_pep508_string vm c, constraint = Some (label x),
         version_spec_field = version_spec_field x, origin_spec = origin_spec x\<rparr>"
      by (simp add: merged_entry_def same_label_entry_def y cv Some)
    have ih: "merge_specs vm (map (\<lambda>y. (label y, y)) ys) (map (\<lambda>x. (label x, x)) xs)
                (acc @ [merged_entry vm ys x]) =
           (if list_ex (clash vm ys) xs
            then Inl (IncompatibleDependencyError IncompatibleSpecs)
            else Inr ((acc @ [merged_entry vm ys x]) @ map (merged_entry vm ys) xs))"
      using Cons.prems by (intro Cons.IH) auto
    have nc: "\<not> clash vm ys x" by (simp add: clash_def y cv Some)
    show ?thesis
      using ih nc by (simp add: map_of_labelled y a b Some me)
  qed
qed

lemma clash_contradictory:
  assumes "distinct (map label ys)"
  shows "list_ex (clash vm ys) xs = contradictory vm xs ys"
proof -
  have "clash vm ys x = list_ex (\<lambda>y. label y = label x \<and> common_version vm x y = None) ys" for x
  proof (cases "find (\<lambda>y. label y = label x) ys")
    case None
    then have "\<forall>y\<in>set ys. label y \<noteq> label x" by (simp add: find_None_iff)
    with None show ?thesis by (auto simp: clash_def list_ex_iff)
  next
    case (Some y)
    then have y: "y \<in> set ys" "label y = label x"
      by (auto simp: find_Some_iff)
    from assms have inj: "inj_on label (set ys)" by (simp add: distinct_map)
    have "y' = y" if "y' \<in> set ys" "label y' = label x" for y'
      using inj_onD [OF inj, of y' y] that y by simp
    then have "(\<exists>y'\<in>set ys. label y' = label x \<and> common_version vm x y' = None)
                 = (common_version vm x y = None)"
      using y by blast
    then show ?thesis using Some by (simp add: clash_def list_ex_iff)
  qed
  then have "clash vm ys = (\<lambda>x. list_ex (\<lambda>y. label y = label x \<and> common_version vm x y = None) ys)"
    by (intro ext)
  then show ?thesis by (simp only: contradictory_def)
qed

lemma label_with_empty_label: "label (with_empty_label x) = label x"
  by (simp add: with_empty_label_def label_def split: option.splits)

lemma specs_fold_with_empty_label:
  "fold (\<lambda>x d. dict_set d (label x) x) (map with_empty_label xs) (map (\<lambda>(k, x). (k, with_empty_label x)) d)
     = map (\<lambda>(k, x). (k, with_empty_label x)) (fold (\<lambda>x d. dict_set d (label x) x) xs d)"
proof (induction xs arbitrary: d)
  case Nil
  then show ?case by simp
next
  case (Cons a xs)
  have "dict_set (map (\<lambda>(k, x). (k, with_empty_label x)) d) (label a) (with_empty_label a)
          = map (\<lambda>(k, x). (k, with_empty_label x)) (dict_set d (label a) a)"
    by (induction d) (auto simp: dict_set_def)
  with Cons.IH [of "dict_set d (label a) a"] show ?case
    by (simp add: label_with_empty_label)
qed

lemma specs_by_label_with_empty_label:
  "specs_by_label (map with_empty_label xs) = map (\<lambda>(k, x). (k, with_empty_label x)) (specs_by_label xs)"
  using specs_fold_with_empty_label [of xs "[]"] by (simp add: specs_by_label_def)

lemma with_empty_label_fields:
  "version_spec (with_empty_label x) = version_spec x"
  "version_spec_field (with_empty_label x) = version_spec_field x"
  "origin_spec (with_empty_label x) = origin_spec x"
  by (simp_all add: with_empty_label_def split: option.splits)

lemma map_of_with_empty_label:
  "map_of (map (\<lambda>(k, x). (k, with_empty_label x)) d) c = map_option with_empty_label (map_of d c)"
  by (induction d) auto

lemma merge_specs_with_empty_label:
  "merge_specs vm (map (\<lambda>(k, x). (k, with_empty_label x)) another)
      (map (\<lambda>(k, x). (k, with_empty_label x)) items) acc
   = merge_specs vm another items acc"
proof (induction items arbitrary: acc)
  case Nil
  then show ?case by simp
next
  case (Cons p items)
  obtain c spec where p: "p = (c, spec)" by (cases p)
  show ?case
    by (simp add: p map_of_with_empty_label with_empty_label_fields Cons.IH
          split: option.splits sum.splits)
qed

lemma find_common_specs_with_empty_label:
  "find_common_specs vm (map with_empty_label depspecs) (map with_empty_label another_depspecs)
     = find_common_specs vm depspecs another_depspecs"
  by (simp add: find_common_specs_def Let_def specs_by_label_with_empty_label
        merge_specs_with_empty_label [unfolded case_prod_unfold] dict_keys_def comp_def
        case_prod_unfold)


lemma not_distinct_labels:
  assumes "constraint x = None" "constraint y = Some ''''" "x \<in> set xs" "y \<in> set xs"
  shows "\<not> distinct (map label xs)"
proof
  assume d: "distinct (map label xs)"
  then have inj: "inj_on label (set xs)" by (simp add: distinct_map)
  have "label x = label y" using assms by (simp add: label_def)
  then have "x = y" using inj_onD [OF inj, of x y] assms by simp
  with assms show False by simp
qed

lemma find_common_specs_duplicated:
  "\<not> distinct (map label xs) \<or> \<not> distinct (map label ys) \<Longrightarrow>
   find_common_specs vm xs ys = Inl (IncompatibleDependencyError DuplicatedSpecs)"
  by (auto simp: find_common_specs_def Let_def specs_by_label_length)

lemma find_common_specs_single:
  assumes "label x = label y" "common_version vm x y = Some c"
  shows "find_common_specs vm [x] [y] =
           Inr [\<lparr>version_spec = to_pep508_string vm c, constraint = Some (label x),
                 version_spec_field = version_spec_field x, origin_spec = origin_spec x\<rparr>]"
  using assms
  by (auto simp: find_common_specs_def Let_def specs_by_label_def dict_set_def dict_keys_def
        common_version_def split: sum.splits)

lemma find_common_specs_cases:
  assumes "list_all (parses vm) depspecs" and "list_all (parses vm) another_depspecs"
  shows "find_common_specs vm depspecs another_depspecs =
           (if \<not> distinct (map label depspecs) \<or> \<not> distinct (map label another_depspecs)
            then Inl (IncompatibleDependencyError DuplicatedSpecs)
            else if set (map label depspecs) \<noteq> set (map label another_depspecs)
            then Inl (IncompatibleDependencyError DifferentNumberOfSpecs)
            else if contradictory vm depspecs another_depspecs
            then Inl (IncompatibleDependencyError IncompatibleSpecs)
            else Inr (map (merged_entry vm another_depspecs) depspecs))"
proof (cases "distinct (map label depspecs) \<and> distinct (map label another_depspecs)")
  case False
  then show ?thesis
    by (auto simp: find_common_specs_def Let_def specs_by_label_length)
next
  case True
  then have d: "distinct (map label depspecs)" "distinct (map label another_depspecs)" by auto
  have keys: "set (dict_keys (specs_by_label depspecs)) = set (map label depspecs)"
       "set (dict_keys (specs_by_label another_depspecs)) = set (map label another_depspecs)"
    by (simp_all add: dict_keys_def specs_by_label_distinct d comp_def)
  show ?thesis
  proof (cases "set (map label depspecs) = set (map label another_depspecs)")
    case False
    then show ?thesis
      using d keys by (simp add: find_common_specs_def Let_def specs_by_label_length)
  next
    case same: True
    then have sub: "label ` set depspecs \<subseteq> label ` set another_depspecs" by auto
    have "find_common_specs vm depspecs another_depspecs =
            merge_specs vm (map (\<lambda>y. (label y, y)) another_depspecs)
              (map (\<lambda>x. (label x, x)) depspecs) []"
      using d keys same
      by (simp add: find_common_specs_def Let_def specs_by_label_length specs_by_label_distinct)
    also have "\<dots> = (if list_ex (clash vm another_depspecs) depspecs
            then Inl (IncompatibleDependencyError IncompatibleSpecs)
            else Inr ([] @ map (merged_entry vm another_depspecs) depspecs))"
      using assms sub by (rule merge_specs_labelled)
    finally show ?thesis
      using d same by (simp add: clash_contradictory)
  qed
qed

text \<open>
  Claim C4. For two requirement lists whose version-range texts all parse,
  \<open>find_common_specs\<close> raises \<open>IncompatibleDependencyError\<close> exactly when a side has two
  entries with one label (duplicated specs), or the sides' label sets differ (different
  number of specs), or the intersection is contradictory for some label (incompatible
  specs); otherwise it returns, in the first side's order, one entry per label with the
  first side's label (as the dictionary key spells it), spec-field name and origin
  metadata, and the rendered intersection as its version-range text.
\<close>

theorem find_common_specs_rule:
  assumes "list_all (parses vm) depspecs" and "list_all (parses vm) another_depspecs"
  shows "((\<exists>k. find_common_specs vm depspecs another_depspecs = Inl (IncompatibleDependencyError k))
            \<longleftrightarrow> (\<not> distinct (map label depspecs) \<or> \<not> distinct (map label another_depspecs)
                 \<or> set (map label depspecs) \<noteq> set (map label another_depspecs)
                 \<or> contradictory vm depspecs another_depspecs))
         \<and> find_common_specs vm depspecs another_depspecs =
           (if \<not> distinct (map label depspecs) \<or> \<not> distinct (map label another_depspecs)
            then Inl (IncompatibleDependencyError DuplicatedSpecs)
            else if set (map label depspecs) \<noteq> set (map label another_depspecs)
            then Inl (IncompatibleDependencyError DifferentNumberOfSpecs)
            else if contradictory vm depspecs another_depspecs
            then Inl (IncompatibleDependencyError IncompatibleSpecs)
            else Inr (map (merged_entry vm another_depspecs) depspecs))"
proof -
  note c = find_common_specs_cases [OF assms]
  have "(\<exists>k. find_common_specs vm depspecs another_depspecs = Inl (IncompatibleDependencyError k))
            \<longleftrightarrow> (\<not> distinct (map label depspecs) \<or> \<not> distinct (map label another_depspecs)
                 \<or> set (map label depspecs) \<noteq> set (map label another_depspecs)
                 \<or> contradictory vm depspecs another_depspecs)"
    by (subst c) auto
  with c show ?thesis by (rule_tac conjI)
qed

theorem find_common_specs_rule_witness:
  "list_all (parses example_model) [example_spec ''>=1.0'' None]
   \<and> list_all (parses example_model) [example_spec ''<2.0'' (Some '''')]
   \<and> find_common_specs example_model [example_spec ''>=1.0'' None] [example_spec ''<2.0'' (Some '''')]
       = Inr [example_spec ''>=1.0,<2.0'' (Some '''')]"
  using find_common_specs_rule [of example_model "[example_spec ''>=1.0'' None]"
          "[example_spec ''<2.0'' (Some '''')]"]
  by (simp del: ex_simps add: parses_def example_model_def example_spec_def label_def contradictory_def
        common_version_def merged_entry_def same_label_entry_def)

text \<open>
  Claim C10. \<open>find_common_specs\<close> keys the entries by label with the absent label read as
  the empty one: writing every absent label as the empty string changes nothing, an
  unlabeled and an empty-labeled entry on one side are duplicates, and an unlabeled entry
  merges with an empty-labeled entry of the other side (in either order).
\<close>

theorem find_common_specs_absent_label:
  "find_common_specs vm (map with_empty_label depspecs) (map with_empty_label another_depspecs)
     = find_common_specs vm depspecs another_depspecs
   \<and> (constraint x = None \<and> constraint y = Some '''' \<and> x \<in> set depspecs \<and> y \<in> set depspecs
        \<longrightarrow> find_common_specs vm depspecs another_depspecs
              = Inl (IncompatibleDependencyError DuplicatedSpecs)
          \<and> find_common_specs vm another_depspecs depspecs
              = Inl (IncompatibleDependencyError DuplicatedSpecs))
   \<and> (constraint x = None \<and> constraint y = Some '''' \<and> common_version vm x y = Some c
        \<longrightarrow> find_common_specs vm [x] [y]
              = Inr [\<lparr>version_spec = to_pep508_string vm c, constraint = Some '''',
                      version_spec_field = version_spec_field x, origin_spec = origin_spec x\<rparr>])
   \<and> (constraint x = None \<and> constraint y = Some '''' \<and> common_version vm y x = Some c
        \<longrightarrow> find_common_specs vm [y] [x]
              = Inr [\<lparr>version_spec = to_pep508_string vm c, constraint = Some '''',
                      version_spec_field = version_spec_field y, origin_spec = origin_spec y\<rparr>])"
proof (intro conjI impI)
  show "find_common_specs vm (map with_empty_label depspecs) (map with_empty_label another_depspecs)
     = find_common_specs vm depspecs another_depspecs"
    by (rule find_common_specs_with_empty_label)
next
  assume h: "constraint x = None \<and> constraint y = Some '''' \<and> x \<in> set depspecs \<and> y \<in> set depspecs"
  then have nd: "\<not> distinct (map label depspecs)"
    using not_distinct_labels [of x y depspecs] by simp
  show "find_common_specs vm depspecs another_depspecs
              = Inl (IncompatibleDependencyError DuplicatedSpecs)"
    using nd by (simp add: find_common_specs_duplicated)
  show "find_common_specs vm another_depspecs depspecs
              = Inl (IncompatibleDependencyError DuplicatedSpecs)"
    using nd by (simp add: find_common_specs_duplicated)
next
  assume h: "constraint x = None \<and> constraint y = Some '''' \<and> common_version vm x y = Some c"
  then have l: "label x = label y" "label x = ''''" by (simp_all add: label_def)
  show "find_common_specs vm [x] [y]
              = Inr [\<lparr>version_spec = to_pep508_string vm c, constraint = Some '''',
                      version_spec_field = version_spec_field x, origin_spec = origin_spec x\<rparr>]"
    using find_common_specs_single [of x y vm c] h l by simp
next
  assume h: "constraint x = None \<and> constraint y = Some '''' \<and> common_version vm y x = Some c"
  then have l: "label y = label x" "label y = ''''" by (simp_all add: label_def)
  show "find_common_specs vm [y] [x]
              = Inr [\<lparr>version_spec = to_pep508_string vm c, constraint = Some '''',
                      version_spec_field = version_spec_field y, origin_spec = origin_spec y\<rparr>]"
    using find_common_specs_single [of y x vm c] h l by simp
qed

theorem find_common_specs_absent_label_witness:
  "find_common_specs example_model [example_spec ''>=1.0'' None] [example_spec ''<2.0'' (Some '''')]
     = Inr [example_spec ''>=1.0,<2.0'' (Some '''')]
   \<and> find_common_specs example_model [example_spec ''<2.0'' (Some '''')] [example_spec ''>=1.0'' None]
     = Inr [example_spec ''<2.0,>=1.0'' (Some '''')]
   \<and> find_common_specs example_model
        [example_spec ''>=1.0'' None, example_spec ''<2.0'' (Some '''')] [example_spec ''>=1.0'' None]
     = Inl (IncompatibleDependencyError DuplicatedSpecs)
   \<and> find_common_specs example_model
        [example_spec ''>=1.0'' None] [example_spec ''>=1.0'' None, example_spec ''<2.0'' (Some '''')]
     = Inl (IncompatibleDependencyError DuplicatedSpecs)"
  using find_common_specs_absent_label [of example_model
          "[example_spec ''>=1.0'' None, example_spec ''<2.0'' (Some '''')]"
          "[example_spec ''>=1.0'' None]"
          "example_spec ''>=1.0'' None" "example_spec ''<2.0'' (Some '''')" "[''>=1.0'', ''<2.0'']"]
        find_common_specs_absent_label [of example_model "[]" "[]"
          "example_spec ''>=1.0'' None" "example_spec ''<2.0'' (Some '''')" "[''<2.0'', ''>=1.0'']"]
  by (simp add: example_model_def example_spec_def common_version_def)

section \<open>Properties of the cached/merged install\<close>

lemma exec_files: "files (snd (exec sys cmd cwd venv w)) = snd (run_command sys cmd cwd venv (files w))"
  by (simp add: exec_def Let_def)

lemma exec_unchanged:
  assumes "\<And>cmd cwd venv fs. snd (run_command sys cmd cwd venv fs) q = fs q"
  shows "files (snd (exec sys cmd cwd venv w)) q = files w q"
  by (simp add: exec_files assms)

lemma install_poetry_package_unchanged:
  assumes "\<And>cmd cwd venv fs. snd (run_command sys cmd cwd venv fs) q = fs q"
  shows "files (snd (install_poetry_package sys p virtualenv quiet w)) q = files w q"
proof -
  note k = exec_unchanged [of sys q, OF assms]
  have k2: "files w1 q = files w0 q" if "exec sys cmd cwd venv w0 = (r, w1)" for cmd cwd venv w0 r w1
    using k [of cmd cwd venv w0] that by simp
  show ?thesis
    unfolding install_poetry_package_def Let_def
    by (auto split: prod.splits sum.splits error.splits if_splits simp: k dest!: k2)
qed


lemma keeps_staged_filesD:
  assumes "keeps_staged_files sys pkg"
  shows "snd (run_command sys cmd cwd venv fs) (pkg_cache_dir sys pkg, ''pyproject.origin.toml'')
           = fs (pkg_cache_dir sys pkg, ''pyproject.origin.toml'')"
    and "snd (run_command sys cmd cwd venv fs) (pkg_cache_dir sys pkg, ''poetry.origin.lock'')
           = fs (pkg_cache_dir sys pkg, ''poetry.origin.lock'')"
  using assms by (simp_all add: keeps_staged_files_def)

lemma staged_install_body:
  assumes k: "keeps_staged_files sys pkg"
    and m: "files w0 (loc, ''pyproject.toml'') = Some m"
    and d: "files w0 (pkg_cache_dir sys pkg, ''pyproject.modified.toml'') = Some d"
    and body: "(and_then (rename (loc, ''pyproject.toml'') (pkg_cache_dir sys pkg, ''pyproject.origin.toml''))
     (and_then (when_do (exists_file (loc, ''poetry.lock''))
                  (rename (loc, ''poetry.lock'') (pkg_cache_dir sys pkg, ''poetry.origin.lock'')))
     (and_then (copy (pkg_cache_dir sys pkg, ''pyproject.modified.toml'') (loc, ''pyproject.toml''))
     (and_then (when_do (exists_file (pkg_cache_dir sys pkg, ''poetry.modified.lock''))
                  (copy (pkg_cache_dir sys pkg, ''poetry.modified.lock'') (loc, ''poetry.lock'')))
               (install_poetry_package sys p virtualenv False))))) w0 = (r, w5)"
  shows "files w5 (pkg_cache_dir sys pkg, ''pyproject.origin.toml'') = Some m
     \<and> (\<forall>l. files w0 (loc, ''poetry.lock'') = Some l
            \<longrightarrow> files w5 (pkg_cache_dir sys pkg, ''poetry.origin.lock'') = Some l)"
proof -
  let ?PO = "(pkg_cache_dir sys pkg, ''pyproject.origin.toml'')"
  let ?LO = "(pkg_cache_dir sys pkg, ''poetry.origin.lock'')"
  have u1: "files (snd (install_poetry_package sys p virtualenv False w)) ?PO = files w ?PO" for w
    by (rule install_poetry_package_unchanged) (rule keeps_staged_filesD [OF k])
  have u2: "files (snd (install_poetry_package sys p virtualenv False w)) ?LO = files w ?LO" for w
    by (rule install_poetry_package_unchanged) (rule keeps_staged_filesD [OF k])
  have u: "files w5 ?PO = files w ?PO \<and> files w5 ?LO = files w ?LO"
    if "install_poetry_package sys p virtualenv False w = (r, w5)" for w r w5
    using u1 [of w] u2 [of w] that by simp
  show ?thesis
    using m d body
    by (auto simp: and_then_def when_do_def rename_def copy_def exists_file_def
          split: option.splits prod.splits sum.splits if_splits dest!: u)
qed

lemma restore_block:
  assumes m: "files w5 (cache, ''pyproject.origin.toml'') = Some m"
  shows "\<exists>w8.
     (and_then (rename (cache, ''pyproject.origin.toml'') (loc, ''pyproject.toml''))
     (and_then (when_do (exists_file (loc, ''poetry.lock''))
                  (rename (loc, ''poetry.lock'') (cache, ''poetry.modified.lock'')))
               (when_do (exists_file (cache, ''poetry.origin.lock''))
                  (rename (cache, ''poetry.origin.lock'') (loc, ''poetry.lock''))))) w5 = (Inr (), w8)
     \<and> files w8 (loc, ''pyproject.toml'') = Some m
     \<and> (\<forall>l. files w5 (cache, ''poetry.origin.lock'') = Some l
            \<longrightarrow> files w8 (loc, ''poetry.lock'') = Some l)"
  using m
  by (auto simp: and_then_def when_do_def rename_def exists_file_def
        split: option.splits prod.splits sum.splits)

text \<open>
  Claim C3. Let the package's real manifest exist, and let the external commands leave the
  files staged in the cache directory alone. Then \<open>install_pkg_dependencies\<close> returns,
  with or without an error from the toolchain, in a world where the manifest is back in
  the package directory with its content from before the install, and so is the lock file
  if there was one before the install.
\<close>

theorem install_pkg_dependencies_restores:
  assumes k: "keeps_staged_files sys pkg"
    and m: "files w (location pkg, ''pyproject.toml'') = Some manifest"
  shows "(\<exists>r w'. install_pkg_dependencies sys pkg deps virtualenv w = (r, w')
            \<and> files w' (location pkg, ''pyproject.toml'') = Some manifest
            \<and> (\<forall>lock. files w (location pkg, ''poetry.lock'') = Some lock
                   \<longrightarrow> files w' (location pkg, ''poetry.lock'') = Some lock))"
proof -
  let ?cache = "pkg_cache_dir sys pkg"
  let ?loc = "location pkg"
  define w0 where "w0 = w\<lparr>files := (files w)((?cache, ''pyproject.modified.toml'')
                          := Some (Dumps (modified_manifest pkg deps)))\<rparr>"
  have w0m: "files w0 (?loc, ''pyproject.toml'') = Some manifest"
    and w0d: "files w0 (?cache, ''pyproject.modified.toml'') = Some (Dumps (modified_manifest pkg deps))"
    and w0l: "files w0 (?loc, ''poetry.lock'') = files w (?loc, ''poetry.lock'')"
    using m by (simp_all add: w0_def)
  obtain r w5 where
    body: "(and_then (rename (?loc, ''pyproject.toml'') (?cache, ''pyproject.origin.toml''))
     (and_then (when_do (exists_file (?loc, ''poetry.lock''))
                  (rename (?loc, ''poetry.lock'') (?cache, ''poetry.origin.lock'')))
     (and_then (copy (?cache, ''pyproject.modified.toml'') (?loc, ''pyproject.toml''))
     (and_then (when_do (exists_file (?cache, ''poetry.modified.lock''))
                  (copy (?cache, ''poetry.modified.lock'') (?loc, ''poetry.lock'')))
               (install_poetry_package sys pkg virtualenv False))))) w0 = (r, w5)"
    by (rule prod.exhaust)
  from staged_install_body [OF k w0m w0d body]
  have w5m: "files w5 (?cache, ''pyproject.origin.toml'') = Some manifest"
    and w5l: "\<forall>l. files w0 (?loc, ''poetry.lock'') = Some l
            \<longrightarrow> files w5 (?cache, ''poetry.origin.lock'') = Some l"
    by blast+
  from restore_block [OF w5m, of ?loc]
  obtain w8 where
    fin: "(and_then (rename (?cache, ''pyproject.origin.toml'') (?loc, ''pyproject.toml''))
     (and_then (when_do (exists_file (?loc, ''poetry.lock''))
                  (rename (?loc, ''poetry.lock'') (?cache, ''poetry.modified.lock'')))
               (when_do (exists_file (?cache, ''poetry.origin.lock''))
                  (rename (?cache, ''poetry.origin.lock'') (?loc, ''poetry.lock''))))) w5 = (Inr (), w8)"
    and w8m: "files w8 (?loc, ''pyproject.toml'') = Some manifest"
    and w8l: "\<forall>l. files w5 (?cache, ''poetry.origin.lock'') = Some l
            \<longrightarrow> files w8 (?loc, ''poetry.lock'') = Some l"
    by blast
  have "install_pkg_dependencies sys pkg deps virtualenv w = (r, w8)"
    unfolding install_pkg_dependencies_def Let_def
    by (subst and_then_def) (simp add: write_file_def w0_def [symmetric] try_finally_def body fin)
  with w8m w8l w5l w0l show ?thesis by simp
qed

theorem install_pkg_dependencies_restores_witness:
  "keeps_staged_files example_system (example_pkg ''job'' ''/w/broken'' [])
   \<and> files (example_world [''/w/broken'']) (''/w/broken'', ''pyproject.toml'') = Some (Bytes ''real manifest'')
   \<and> fst (install_pkg_dependencies example_system (example_pkg ''job'' ''/w/broken'' []) [] None
            (example_world [''/w/broken''])) = Inl (ExecProcessError ''poetry install'')
   \<and> files (snd (install_pkg_dependencies example_system (example_pkg ''job'' ''/w/broken'' []) [] None
            (example_world [''/w/broken'']))) (''/w/broken'', ''pyproject.toml'') = Some (Bytes ''real manifest'')
   \<and> files (snd (install_pkg_dependencies example_system (example_pkg ''job'' ''/w/broken'' []) [] None
            (example_world [''/w/broken'']))) (''/w/broken'', ''poetry.lock'') = Some (Bytes ''real lock'')
   \<and> keeps_staged_files example_system (example_pkg ''core'' ''/w/core'' [])
   \<and> files (example_world [''/w/core'']) (''/w/core'', ''pyproject.toml'') = Some (Bytes ''real manifest'')
   \<and> fst (install_pkg_dependencies example_system (example_pkg ''core'' ''/w/core'' []) [] None
            (example_world [''/w/core''])) = Inr ()
   \<and> files (snd (install_pkg_dependencies example_system (example_pkg ''core'' ''/w/core'' []) [] None
            (example_world [''/w/core'']))) (''/w/core'', ''pyproject.toml'') = Some (Bytes ''real manifest'')
   \<and> files (snd (install_pkg_dependencies example_system (example_pkg ''core'' ''/w/core'' []) [] None
            (example_world [''/w/core'']))) (''/w/core'', ''poetry.lock'') = Some (Bytes ''real lock'')"
proof -
  let ?p = "example_pkg ''job'' ''/w/broken'' []"
  let ?w = "example_world [''/w/broken'']"
  let ?q = "example_pkg ''core'' ''/w/core'' []"
  let ?v = "example_world [''/w/core'']"
  have k: "keeps_staged_files example_system pkg" for pkg
    by (simp add: keeps_staged_files_def example_system_def)
  have m: "files ?w (location ?p, ''pyproject.toml'') = Some (Bytes ''real manifest'')"
    "files ?v (location ?q, ''pyproject.toml'') = Some (Bytes ''real manifest'')"
    by (simp_all add: example_world_def example_pkg_def)
  have l: "files ?w (location ?p, ''poetry.lock'') = Some (Bytes ''real lock'')"
    "files ?v (location ?q, ''poetry.lock'') = Some (Bytes ''real lock'')"
    by (simp_all add: example_world_def example_pkg_def)
  have r: "fst (install_pkg_dependencies example_system ?p [] None ?w)
             = Inl (ExecProcessError ''poetry install'')"
    "fst (install_pkg_dependencies example_system ?q [] None ?v) = Inr ()"
    by code_simp+
  show ?thesis
    using install_pkg_dependencies_restores [OF k m(1), of "[]" None]
          install_pkg_dependencies_restores [OF k m(2), of "[]" None] l r k m
    by (auto simp: example_pkg_def)
qed

section \<open>Properties of the requirement aggregation\<close>

lemma dict_set_keys: "set (dict_keys (dict_set d k v)) = insert k (set (dict_keys d))"
  by (simp add: dict_set_def dict_keys_def AList.dom_update)

lemma map_of_dict_keys: "map_of d k = Some v \<Longrightarrow> k \<in> set (dict_keys d)"
  by (auto simp: dict_keys_def dest: map_of_SomeD intro: rev_image_eqI)

lemma aggregate_dependency_keys:
  assumes "aggregate_dependency vm packages ign pkg (depname, depspecs) st = Inr st'"
    and "invalid_thirdparty_pkgs st \<subseteq> set (dict_keys (thirdparty_pkgs st))"
  shows "set (dict_keys (thirdparty_pkgs st'))
           = set (dict_keys (thirdparty_pkgs st)) \<union> ({depname} - set (dict_keys packages))
         \<and> invalid_thirdparty_pkgs st' \<subseteq> set (dict_keys (thirdparty_pkgs st'))"
  using assms
  by (auto simp: aggregate_dependency_def dict_contains_def dict_keys_def [symmetric] dict_set_keys Let_def
        split: if_splits option.splits sum.splits error.splits prod.splits
        dest: map_of_dict_keys)

lemma for_each_dependencies_keys:
  assumes "for_each (aggregate_dependency vm packages ign pkg) deps st = Inr st'"
    and "invalid_thirdparty_pkgs st \<subseteq> set (dict_keys (thirdparty_pkgs st))"
  shows "set (dict_keys (thirdparty_pkgs st'))
           = set (dict_keys (thirdparty_pkgs st)) \<union> (set (dict_keys deps) - set (dict_keys packages))
         \<and> invalid_thirdparty_pkgs st' \<subseteq> set (dict_keys (thirdparty_pkgs st'))"
  using assms
proof (induction deps arbitrary: st)
  case Nil
  then show ?case by (simp add: dict_keys_def)
next
  case (Cons dep deps)
  obtain depname depspecs where dep: "dep = (depname, depspecs)" by (cases dep)
  from Cons.prems obtain st1 where
    s1: "aggregate_dependency vm packages ign pkg (depname, depspecs) st = Inr st1"
    and s2: "for_each (aggregate_dependency vm packages ign pkg) deps st1 = Inr st'"
    by (auto simp: dep split: sum.splits)
  note a = aggregate_dependency_keys [OF s1 Cons.prems(2)]
  from Cons.IH [OF s2] a have
    "set (dict_keys (thirdparty_pkgs st'))
       = set (dict_keys (thirdparty_pkgs st1)) \<union> (set (dict_keys deps) - set (dict_keys packages))
     \<and> invalid_thirdparty_pkgs st' \<subseteq> set (dict_keys (thirdparty_pkgs st'))"
    by blast
  with a show ?case by (auto simp: dep dict_keys_def)
qed

lemma for_each_packages_keys:
  assumes "for_each (\<lambda>pkg. for_each (aggregate_dependency vm packages ign pkg) (dependencies pkg))
             pkgs st = Inr st'"
    and "invalid_thirdparty_pkgs st \<subseteq> set (dict_keys (thirdparty_pkgs st))"
  shows "set (dict_keys (thirdparty_pkgs st'))
           = set (dict_keys (thirdparty_pkgs st))
             \<union> ((\<Union>pkg\<in>set pkgs. set (dict_keys (dependencies pkg))) - set (dict_keys packages))
         \<and> invalid_thirdparty_pkgs st' \<subseteq> set (dict_keys (thirdparty_pkgs st'))"
  using assms
proof (induction pkgs arbitrary: st)
  case Nil
  then show ?case by simp
next
  case (Cons pkg pkgs)
  from Cons.prems obtain st1 where
    s1: "for_each (aggregate_dependency vm packages ign pkg) (dependencies pkg) st = Inr st1"
    and s2: "for_each (\<lambda>pkg. for_each (aggregate_dependency vm packages ign pkg) (dependencies pkg))
               pkgs st1 = Inr st'"
    by (auto split: sum.splits)
  note a = for_each_dependencies_keys [OF s1 Cons.prems(2)]
  from Cons.IH [OF s2] a have
    "set (dict_keys (thirdparty_pkgs st'))
       = set (dict_keys (thirdparty_pkgs st1))
         \<union> ((\<Union>pkg\<in>set pkgs. set (dict_keys (dependencies pkg))) - set (dict_keys packages))
     \<and> invalid_thirdparty_pkgs st' \<subseteq> set (dict_keys (thirdparty_pkgs st'))"
    by blast
  with a show ?case by auto
qed

lemma dict_keys_Nil: "dict_keys [] = []"
  by (simp add: dict_keys_def)

lemma merged_requirements_keys:
  "dict_keys (merged_requirements st) = dict_keys (thirdparty_pkgs st)"
  by (simp add: merged_requirements_def dict_keys_def case_prod_unfold comp_def)

lemma aggregate_keys:
  assumes "aggregate vm packages ign = Inr st"
  shows "set (dict_keys (merged_requirements st))
           = (\<Union>pkg\<in>set (dict_values packages). set (dict_keys (dependencies pkg)))
             - set (dict_keys packages)"
    and "invalid_thirdparty_pkgs st \<subseteq> set (dict_keys (merged_requirements st))"
  using for_each_packages_keys [OF assms [unfolded aggregate_def]]
  by (auto simp: merged_requirements_keys dict_keys_Nil)

lemma dependency_table_fold:
  "fold (\<lambda>(dep, specs) tbl. tbl @ [(dep, serialize_dep_specs specs)]) deps acc
     = acc @ map (\<lambda>(dep, specs). (dep, serialize_dep_specs specs)) deps"
  by (induction deps arbitrary: acc) auto

lemma manifest_dependencies_modified:
  "manifest_dependencies (Some (Dumps (modified_manifest pkg deps)))
     = map (\<lambda>(dep, specs). (dep, serialize_dep_specs specs)) deps"
  by (simp add: manifest_dependencies_def modified_manifest_def dependency_table_fold)

lemma manifest_dependencies_keys:
  "map fst (manifest_dependencies (Some (Dumps (modified_manifest pkg deps)))) = dict_keys deps"
  by (simp add: manifest_dependencies_modified dict_keys_def case_prod_unfold comp_def)

lemma example_aggregate:
  "aggregate example_model example_workspace False
     = Inr \<lparr>thirdparty_pkgs = [(''numpy'', ({''core''}, [example_spec ''>=1.0'' None])),
                               (''requests'', ({''api''}, [example_spec ''>=2.0'' None]))],
            invalid_thirdparty_pkgs = {}\<rparr>"
  by (simp add: aggregate_def example_workspace_def example_pkg_def dict_values_def
        aggregate_dependency_def dict_contains_def dict_set_def)

text \<open>
  The install of \<open>core\<close> in the example workspace, run on a world with both packages'
  files: its outcome, the external commands it ran, and the dependency table of the merged
  manifest it left in the cache directory of \<open>core\<close>.
\<close>

lemma example_install:
  "fst (install example_system example_model example_workspace ''core'' False
          (example_world [''/w/core'', ''/w/api''])) = Inr ()
   \<and> calls (snd (install example_system example_model example_workspace ''core'' False
          (example_world [''/w/core'', ''/w/api''])))
       = [(''poetry install'', ''/w/core'', ''/venvs/core''),
          (''poetry install -q'', ''/w/api'', ''/venvs/core'')]
   \<and> manifest_dependencies
        (files (snd (install example_system example_model example_workspace ''core'' False
                       (example_world [''/w/core'', ''/w/api''])))
           (''/cache/core'', ''pyproject.modified.toml''))
      = [(''numpy'', TString ''>=1.0''), (''requests'', TString ''>=2.0'')]"
  by code_simp

text \<open>
  Claim C1 as stated fails: in the example workspace only \<open>api\<close> requires \<open>requests\<close>,
  and the install of \<open>core\<close> writes \<open>requests\<close> into the merged manifest of \<open>core\<close>.
\<close>

theorem install_merged_requirements_counterexample:
  "fst (install example_system example_model example_workspace ''core'' False
          (example_world [''/w/core'', ''/w/api''])) = Inr ()
   \<and> map_of (manifest_dependencies
        (files (snd (install example_system example_model example_workspace ''core'' False
                       (example_world [''/w/core'', ''/w/api''])))
           (''/cache/core'', ''pyproject.modified.toml''))) ''requests'' = Some (TString ''>=2.0'')
   \<and> map_of example_workspace ''core''
       = Some (example_pkg ''core'' ''/w/core'' [(''numpy'', [example_spec ''>=1.0'' None])])
   \<and> ''requests'' \<notin> set (dict_keys (dependencies
         (example_pkg ''core'' ''/w/core'' [(''numpy'', [example_spec ''>=1.0'' None])])))"
  using example_install
  by (simp add: example_workspace_def example_pkg_def dict_keys_def)

text \<open>
  Claim C1, amended. When the aggregation succeeds and the target is a discovered package,
  the install command runs the cached/merged install of the target with the merged
  requirements of all local packages: the dependency names of the target's merged manifest
  are exactly the names that some local package, the target or another, depends on and
  that are not names of local packages.
\<close>

theorem install_merged_requirements:
  assumes "aggregate vm packages ignore_invalid_dependency = Inr st"
    and "map_of packages package = Some target"
  shows "install sys vm packages package ignore_invalid_dependency w
           = (case install_pkg_dependencies sys target (merged_requirements st) None w of
                (Inl e, w1) \<Rightarrow> (Inl e, w1)
              | (Inr u, w1) \<Rightarrow>
                  install_local_pkgs sys
                    (filter (\<lambda>pkg. name pkg \<noteq> package) (dict_values packages))
                    (venv_path sys (name target) (location target)) w1)
         \<and> set (map fst (manifest_dependencies
                            (Some (Dumps (modified_manifest target (merged_requirements st))))))
           = (\<Union>pkg\<in>set (dict_values packages). set (dict_keys (dependencies pkg)))
             - set (dict_keys packages)"
  using assms aggregate_keys(1) [OF assms(1)]
  by (simp add: install_def manifest_dependencies_keys)

theorem install_merged_requirements_witness:
  "aggregate example_model example_workspace False
     = Inr \<lparr>thirdparty_pkgs = [(''numpy'', ({''core''}, [example_spec ''>=1.0'' None])),
                               (''requests'', ({''api''}, [example_spec ''>=2.0'' None]))],
            invalid_thirdparty_pkgs = {}\<rparr>
   \<and> map_of example_workspace ''core''
       = Some (example_pkg ''core'' ''/w/core'' [(''numpy'', [example_spec ''>=1.0'' None])])
   \<and> map fst (manifest_dependencies (Some (Dumps (modified_manifest
         (example_pkg ''core'' ''/w/core'' [(''numpy'', [example_spec ''>=1.0'' None])])
         [(''numpy'', [example_spec ''>=1.0'' None]), (''requests'', [example_spec ''>=2.0'' None])]))))
       = [''numpy'', ''requests'']
   \<and> (\<Union>pkg\<in>set (dict_values example_workspace). set (dict_keys (dependencies pkg)))
         - set (dict_keys example_workspace) = {''numpy'', ''requests''}"
  using install_merged_requirements [OF example_aggregate, of "''core''"
          "example_pkg ''core'' ''/w/core'' [(''numpy'', [example_spec ''>=1.0'' None])]"
          example_system "example_world [''/w/core'', ''/w/api'']"]
        example_aggregate
  by (auto simp: example_workspace_def merged_requirements_def manifest_dependencies_keys
        dict_keys_def dict_values_def example_pkg_def)

lemma map_of_dict_set: "map_of (dict_set d k v) k' = (if k' = k then Some v else map_of d k')"
  by (simp add: dict_set_def AList.update_conv')

lemma map_of_merged_requirements:
  "map_of (merged_requirements st) d = map_option snd (map_of (thirdparty_pkgs st) d)"
proof -
  have "map_of (map (\<lambda>(depname, (users, depspecs)). (depname, depspecs)) xs) d
          = map_option snd (map_of xs d)" for xs :: "(string \<times> string set \<times> DepConstraints) list"
    by (induction xs) auto
  then show ?thesis by (simp add: merged_requirements_def)
qed

lemma aggregate_dependency_invalid_skip:
  "depname \<in> invalid_thirdparty_pkgs st \<Longrightarrow>
   aggregate_dependency vm packages ign pkg (depname, depspecs) st = Inr st"
  by (simp add: aggregate_dependency_def)

lemma aggregate_dependency_frozen:
  assumes "d \<in> invalid_thirdparty_pkgs st"
    and "aggregate_dependency vm packages ign pkg dep st = Inr st1"
  shows "d \<in> invalid_thirdparty_pkgs st1
         \<and> map_of (thirdparty_pkgs st1) d = map_of (thirdparty_pkgs st) d"
proof -
  obtain depname depspecs where dep: "dep = (depname, depspecs)" by (cases dep)
  show ?thesis
  proof (cases "depname = d")
    case True
    with assms show ?thesis by (simp add: dep aggregate_dependency_invalid_skip)
  next
    case False
    with assms show ?thesis
      by (auto simp: dep aggregate_dependency_def map_of_dict_set Let_def
            split: if_splits option.splits sum.splits error.splits prod.splits)
  qed
qed

lemma for_each_dependencies_frozen:
  assumes "d \<in> invalid_thirdparty_pkgs st"
    and "for_each (aggregate_dependency vm packages ign pkg) deps st = Inr st1"
  shows "d \<in> invalid_thirdparty_pkgs st1
         \<and> map_of (thirdparty_pkgs st1) d = map_of (thirdparty_pkgs st) d"
  using assms
proof (induction deps arbitrary: st)
  case Nil
  then show ?case by simp
next
  case (Cons dep deps)
  from Cons.prems obtain st0 where
    s1: "aggregate_dependency vm packages ign pkg dep st = Inr st0"
    and s2: "for_each (aggregate_dependency vm packages ign pkg) deps st0 = Inr st1"
    by (auto split: sum.splits)
  from aggregate_dependency_frozen [OF Cons.prems(1) s1]
  have a: "d \<in> invalid_thirdparty_pkgs st0"
    and b: "map_of (thirdparty_pkgs st0) d = map_of (thirdparty_pkgs st) d" by simp_all
  from Cons.IH [OF a s2] b show ?case by simp
qed

lemma for_each_packages_frozen:
  assumes "d \<in> invalid_thirdparty_pkgs st"
    and "for_each (\<lambda>pkg. for_each (aggregate_dependency vm packages ign pkg) (dependencies pkg))
           pkgs st = Inr st1"
  shows "d \<in> invalid_thirdparty_pkgs st1
         \<and> map_of (thirdparty_pkgs st1) d = map_of (thirdparty_pkgs st) d"
  using assms
proof (induction pkgs arbitrary: st)
  case Nil
  then show ?case by simp
next
  case (Cons pkg pkgs)
  from Cons.prems obtain st0 where
    s1: "for_each (aggregate_dependency vm packages ign pkg) (dependencies pkg) st = Inr st0"
    and s2: "for_each (\<lambda>pkg. for_each (aggregate_dependency vm packages ign pkg) (dependencies pkg))
               pkgs st0 = Inr st1"
    by (auto split: sum.splits)
  from for_each_dependencies_frozen [OF Cons.prems(1) s1]
  have a: "d \<in> invalid_thirdparty_pkgs st0"
    and b: "map_of (thirdparty_pkgs st0) d = map_of (thirdparty_pkgs st) d" by simp_all
  from Cons.IH [OF a s2] b show ?case by simp
qed

lemma aggregate_dependency_conflict:
  assumes "find_common_specs vm specs depspecs = Inl (IncompatibleDependencyError k)"
    and "map_of (thirdparty_pkgs st) depname = Some (users, specs)"
    and "\<not> dict_contains depname packages"
    and "depname \<notin> invalid_thirdparty_pkgs st"
  shows "aggregate_dependency vm packages True pkg (depname, depspecs) st
           = Inr (st\<lparr>thirdparty_pkgs :=
                       dict_set (thirdparty_pkgs st) depname (insert (name pkg) users, specs),
                     invalid_thirdparty_pkgs := insert depname (invalid_thirdparty_pkgs st)\<rparr>)"
    and "aggregate_dependency vm packages False pkg (depname, depspecs) st
           = Inl (IncompatibleDependencyError k)"
  using assms by (simp_all add: aggregate_dependency_def Let_def)

text \<open>
  Claim C2 as stated fails: in the conflicting workspace \<open>core\<close> and \<open>api\<close> require
  contradictory versions of \<open>numpy\<close>; with the tolerance flag set \<open>numpy\<close> is marked
  invalid, and the merged manifest of the installed package still requires the \<open>numpy\<close>
  of \<open>core\<close>.
\<close>

theorem tolerated_conflict_counterexample:
  "find_common_specs example_model [example_spec ''>=1.0'' None] [example_spec ''<1.0'' None]
     = Inl (IncompatibleDependencyError IncompatibleSpecs)
   \<and> (case aggregate example_model conflicting_workspace True of
         Inl e \<Rightarrow> False
       | Inr st \<Rightarrow> ''numpy'' \<in> invalid_thirdparty_pkgs st
                  \<and> map_of (merged_requirements st) ''numpy'' = Some [example_spec ''>=1.0'' None])
   \<and> fst (install example_system example_model conflicting_workspace ''api'' True
            (example_world [''/w/core'', ''/w/api''])) = Inr ()
   \<and> manifest_dependencies
        (files (snd (install example_system example_model conflicting_workspace ''api'' True
                       (example_world [''/w/core'', ''/w/api''])))
           (''/cache/api'', ''pyproject.modified.toml''))
      = [(''numpy'', TString ''>=1.0'')]"
  by code_simp

text \<open>
  Claim C2, amended. When the merge of a further requirement for a third-party dependency
  raises \<open>IncompatibleDependencyError\<close> and the tolerance flag is set, the dependency name
  is marked invalid and every later requirement for it is skipped; the requirement merged
  for it before the conflict stays in the aggregation, through the end of the loops, and
  so is part of the merged requirements that the cached/merged install is given.
\<close>

theorem tolerated_conflict_keeps_requirement:
  assumes "find_common_specs vm specs depspecs = Inl (IncompatibleDependencyError k)"
    and "map_of (thirdparty_pkgs st) depname = Some (users, specs)"
    and "\<not> dict_contains depname packages"
    and "depname \<notin> invalid_thirdparty_pkgs st"
  shows "\<exists>st'. aggregate_dependency vm packages True pkg (depname, depspecs) st = Inr st'
           \<and> invalid_thirdparty_pkgs st' = insert depname (invalid_thirdparty_pkgs st)
           \<and> map_of (merged_requirements st') depname = Some specs
           \<and> (\<forall>pkg' depspecs'.
                 aggregate_dependency vm packages True pkg' (depname, depspecs') st' = Inr st')
           \<and> (\<forall>pkg' deps st''.
                 for_each (aggregate_dependency vm packages True pkg') deps st' = Inr st''
                 \<longrightarrow> depname \<in> invalid_thirdparty_pkgs st''
                     \<and> map_of (merged_requirements st'') depname = Some specs)
           \<and> (\<forall>pkgs st''.
                 for_each (\<lambda>pkg. for_each (aggregate_dependency vm packages True pkg)
                                   (dependencies pkg)) pkgs st' = Inr st''
                 \<longrightarrow> depname \<in> invalid_thirdparty_pkgs st''
                     \<and> map_of (merged_requirements st'') depname = Some specs)
           \<and> (\<forall>final. aggregate vm packages True = Inr final
                 \<longrightarrow> invalid_thirdparty_pkgs final \<subseteq> set (dict_keys (merged_requirements final)))"
proof -
  define st' where "st' = st\<lparr>thirdparty_pkgs :=
                       dict_set (thirdparty_pkgs st) depname (insert (name pkg) users, specs),
                     invalid_thirdparty_pkgs := insert depname (invalid_thirdparty_pkgs st)\<rparr>"
  have step: "aggregate_dependency vm packages True pkg (depname, depspecs) st = Inr st'"
    unfolding st'_def by (rule aggregate_dependency_conflict(1) [OF assms])
  have inv: "depname \<in> invalid_thirdparty_pkgs st'" by (simp add: st'_def)
  have req: "map_of (thirdparty_pkgs st') depname = Some (insert (name pkg) users, specs)"
    by (simp add: st'_def map_of_dict_set)
  have later: "depname \<in> invalid_thirdparty_pkgs st''
                 \<and> map_of (merged_requirements st'') depname = Some specs"
    if "for_each (\<lambda>pkg. for_each (aggregate_dependency vm packages True pkg)
                           (dependencies pkg)) pkgs st' = Inr st''" for pkgs st''
    using for_each_packages_frozen [OF inv that] req
    by (simp add: map_of_merged_requirements)
  have rest: "depname \<in> invalid_thirdparty_pkgs st''
                 \<and> map_of (merged_requirements st'') depname = Some specs"
    if "for_each (aggregate_dependency vm packages True pkg') deps st' = Inr st''" for pkg' deps st''
    using for_each_dependencies_frozen [OF inv that] req
    by (simp add: map_of_merged_requirements)
  have final: "invalid_thirdparty_pkgs final \<subseteq> set (dict_keys (merged_requirements final))"
    if "aggregate vm packages True = Inr final" for final
    using aggregate_keys(2) [OF that] .
  have skip: "aggregate_dependency vm packages True pkg' (depname, depspecs') st' = Inr st'"
    for pkg' depspecs'
    using inv by (rule aggregate_dependency_invalid_skip)
  have here: "invalid_thirdparty_pkgs st' = insert depname (invalid_thirdparty_pkgs st)"
    "map_of (merged_requirements st') depname = Some specs"
    using req by (simp_all add: st'_def map_of_merged_requirements)
  show ?thesis
    using step here skip rest later final by blast
qed

theorem tolerated_conflict_keeps_requirement_witness:
  "find_common_specs example_model [example_spec ''>=1.0'' None] [example_spec ''<1.0'' None]
     = Inl (IncompatibleDependencyError IncompatibleSpecs)
   \<and> map_of (thirdparty_pkgs \<lparr>thirdparty_pkgs = [(''numpy'', ({''core''}, [example_spec ''>=1.0'' None]))],
                               invalid_thirdparty_pkgs = {}\<rparr>) ''numpy''
       = Some ({''core''}, [example_spec ''>=1.0'' None])
   \<and> \<not> dict_contains ''numpy'' conflicting_workspace
   \<and> (\<exists>st'. aggregate_dependency example_model conflicting_workspace True
               (example_pkg ''api'' ''/w/api'' []) (''numpy'', [example_spec ''<1.0'' None])
               \<lparr>thirdparty_pkgs = [(''numpy'', ({''core''}, [example_spec ''>=1.0'' None]))],
                 invalid_thirdparty_pkgs = {}\<rparr> = Inr st'
            \<and> invalid_thirdparty_pkgs st' = {''numpy''}
            \<and> map_of (merged_requirements st') ''numpy'' = Some [example_spec ''>=1.0'' None])"
proof -
  let ?st = "\<lparr>thirdparty_pkgs = [(''numpy'', ({''core''}, [example_spec ''>=1.0'' None]))],
              invalid_thirdparty_pkgs = {}\<rparr>"
  have a: "find_common_specs example_model [example_spec ''>=1.0'' None] [example_spec ''<1.0'' None]
             = Inl (IncompatibleDependencyError IncompatibleSpecs)"
    by code_simp
  have b: "map_of (thirdparty_pkgs ?st) ''numpy'' = Some ({''core''}, [example_spec ''>=1.0'' None])"
    by simp
  have c: "\<not> dict_contains ''numpy'' conflicting_workspace"
    by (simp add: dict_contains_def conflicting_workspace_def)
  have d: "''numpy'' \<notin> invalid_thirdparty_pkgs ?st" by simp
  from tolerated_conflict_keeps_requirement [OF a b c d, of "example_pkg ''api'' ''/w/api'' []"]
  obtain st' where
    "aggregate_dependency example_model conflicting_workspace True
       (example_pkg ''api'' ''/w/api'' []) (''numpy'', [example_spec ''<1.0'' None]) ?st = Inr st'"
    "invalid_thirdparty_pkgs st' = insert ''numpy'' (invalid_thirdparty_pkgs ?st)"
    "map_of (merged_requirements st') ''numpy'' = Some [example_spec ''>=1.0'' None]"
    by blast
  then have "\<exists>st'. aggregate_dependency example_model conflicting_workspace True
               (example_pkg ''api'' ''/w/api'' []) (''numpy'', [example_spec ''<1.0'' None]) ?st = Inr st'
            \<and> invalid_thirdparty_pkgs st' = {''numpy''}
            \<and> map_of (merged_requirements st') ''numpy'' = Some [example_spec ''>=1.0'' None]"
    by auto
  with a b c show ?thesis by blast
qed

section \<open>The order of the steps of the install command\<close>

lemma appends_callsI:
  "(\<And>w. \<exists>cs. calls (snd (f w)) = calls w @ cs \<and> list_all P cs) \<Longrightarrow> appends_calls P f"
  by (simp add: appends_calls_def)

lemma appends_callsD:
  "appends_calls P f \<Longrightarrow> \<exists>cs. calls (snd (f w)) = calls w @ cs \<and> list_all P cs"
  by (simp add: appends_calls_def)

lemma appends_calls_exec: "P (cmd, cwd, venv) \<Longrightarrow> appends_calls P (exec sys cmd cwd venv)"
  by (rule appends_callsI) (simp add: exec_def Let_def)

lemma appends_calls_rename: "appends_calls P (rename src dst)"
  by (rule appends_callsI) (simp add: rename_def split: option.splits)

lemma appends_calls_copy: "appends_calls P (copy src dst)"
  by (rule appends_callsI) (simp add: copy_def split: option.splits)

lemma appends_calls_write_file: "appends_calls P (write_file p c)"
  by (rule appends_callsI) (simp add: write_file_def)

lemma appends_calls_and_then:
  assumes "appends_calls P f" "appends_calls P g"
  shows "appends_calls P (and_then f g)"
proof (rule appends_callsI)
  fix w
  obtain r w1 where f: "f w = (r, w1)" by (cases "f w")
  from appends_callsD [OF assms(1), of w] f obtain cs where
    cs: "calls w1 = calls w @ cs" "list_all P cs" by auto
  from appends_callsD [OF assms(2), of w1] obtain ds where
    ds: "calls (snd (g w1)) = calls w1 @ ds" "list_all P ds" by auto
  show "\<exists>cs. calls (snd (and_then f g w)) = calls w @ cs \<and> list_all P cs"
  proof (cases r)
    case (Inl e)
    with f cs show ?thesis by (simp add: and_then_def)
  next
    case (Inr u)
    with f cs ds have "calls (snd (and_then f g w)) = calls w @ (cs @ ds) \<and> list_all P (cs @ ds)"
      by (simp add: and_then_def)
    then show ?thesis by blast
  qed
qed

lemma appends_calls_when_do:
  assumes "appends_calls P f"
  shows "appends_calls P (when_do c f)"
proof (rule appends_callsI)
  fix w
  show "\<exists>cs. calls (snd (when_do c f w)) = calls w @ cs \<and> list_all P cs"
    using appends_callsD [OF assms, of w] by (simp add: when_do_def)
qed

lemma appends_calls_try_finally:
  assumes "appends_calls P f" "appends_calls P g"
  shows "appends_calls P (try_finally f g)"
proof (rule appends_callsI)
  fix w
  obtain r w1 where f: "f w = (r, w1)" by (cases "f w")
  from appends_callsD [OF assms(1), of w] f obtain cs where
    cs: "calls w1 = calls w @ cs" "list_all P cs" by auto
  obtain r2 w2 where g: "g w1 = (r2, w2)" by (cases "g w1")
  from appends_callsD [OF assms(2), of w1] g obtain ds where
    ds: "calls w2 = calls w1 @ ds" "list_all P ds" by auto
  have "calls (snd (try_finally f g w)) = calls w @ (cs @ ds) \<and> list_all P (cs @ ds)"
    using f g cs ds by (simp add: try_finally_def split: sum.splits)
  then show "\<exists>cs. calls (snd (try_finally f g w)) = calls w @ cs \<and> list_all P cs" by blast
qed

lemma appends_calls_mask_file:
  assumes "appends_calls P f"
  shows "appends_calls P (mask_file p f)"
proof (rule appends_callsI)
  fix w
  show "\<exists>cs. calls (snd (mask_file p f w)) = calls w @ cs \<and> list_all P cs"
    using appends_callsD [OF assms, of "w\<lparr>files := (files w)(p := None)\<rparr>"]
    by (auto simp: mask_file_def Let_def split: prod.splits)
qed

lemma appends_calls_install_poetry_package:
  assumes "\<And>cmd. P (cmd, location pkg,
              (case virtualenv of None \<Rightarrow> venv_path sys (name pkg) (location pkg) | Some v \<Rightarrow> v))"
  shows "appends_calls P (install_poetry_package sys pkg virtualenv quiet)"
proof (rule appends_callsI)
  fix w
  let ?venv = "case virtualenv of None \<Rightarrow> venv_path sys (name pkg) (location pkg) | Some v \<Rightarrow> v"
  have e: "\<exists>cs. calls (snd (exec sys cmd (location pkg) ?venv w0)) = calls w0 @ cs \<and> list_all P cs"
    for cmd w0
    using appends_callsD [OF appends_calls_exec [of P cmd "location pkg" ?venv sys], of w0] assms
    by simp
  have e2: "\<exists>cs. calls w1 = calls w0 @ cs \<and> list_all P cs"
    if "exec sys cmd (location pkg) ?venv w0 = (r, w1)" for cmd w0 r w1
    using e [of cmd w0] that by simp
  define checked where "checked =
            (if exists_file (location pkg, ''poetry.lock'') w
             then (case exec sys (''poetry check --lock'' @ (if quiet then '' -q'' else '''')) (location pkg) ?venv w of
                     (Inl (ExecProcessError c), w1) \<Rightarrow>
                       exec sys (''poetry lock --no-update'' @ (if quiet then '' -q'' else '''')) (location pkg) ?venv w1
                   | r \<Rightarrow> r)
             else (Inr (), w))"
  have c: "\<exists>cs. calls (snd checked) = calls w @ cs \<and> list_all P cs"
  proof (cases "exists_file (location pkg, ''poetry.lock'') w")
    case False
    then show ?thesis by (simp add: checked_def)
  next
    case True
    obtain r w1 where x: "exec sys (''poetry check --lock'' @ (if quiet then '' -q'' else '''')) (location pkg) ?venv w = (r, w1)"
      by (rule prod.exhaust)
    from e2 [OF x] obtain cs where cs: "calls w1 = calls w @ cs" "list_all P cs" by auto
    show ?thesis
    proof (cases "\<exists>c. r = Inl (ExecProcessError c)")
      case False
      then have "checked = (r, w1)"
        using True x by (auto simp: checked_def split: sum.splits error.splits)
      with cs show ?thesis by simp
    next
      case True2: True
      then have ch: "checked = exec sys (''poetry lock --no-update'' @ (if quiet then '' -q'' else '''')) (location pkg) ?venv w1"
        using True x by (auto simp: checked_def)
      from e [of "''poetry lock --no-update'' @ (if quiet then '' -q'' else '''')" w1]
      obtain ds where ds: "calls (snd checked) = calls w1 @ ds" "list_all P ds"
        unfolding ch by auto
      with cs have "calls (snd checked) = calls w @ (cs @ ds) \<and> list_all P (cs @ ds)" by simp
      then show ?thesis by blast
    qed
  qed
  obtain r2 w2 where ch2: "checked = (r2, w2)" by (rule prod.exhaust)
  from c ch2 obtain cs where cs: "calls w2 = calls w @ cs" "list_all P cs" by auto
  have ipp: "install_poetry_package sys pkg virtualenv quiet w =
      (case r2 of Inl e \<Rightarrow> (Inl e, w2)
       | Inr u \<Rightarrow> exec sys (''poetry install'' @ (if quiet then '' -q'' else '''')) (location pkg) ?venv w2)"
    using ch2 unfolding install_poetry_package_def Let_def checked_def [symmetric] by simp
  show "\<exists>cs. calls (snd (install_poetry_package sys pkg virtualenv quiet w)) = calls w @ cs \<and> list_all P cs"
  proof (cases r2)
    case (Inl e)
    with ipp cs show ?thesis by simp
  next
    case (Inr u)
    from e [of "''poetry install'' @ (if quiet then '' -q'' else '''')" w2] obtain ds where
      ds: "calls (snd (exec sys (''poetry install'' @ (if quiet then '' -q'' else '''')) (location pkg) ?venv w2))
             = calls w2 @ ds" "list_all P ds" by auto
    with cs Inr ipp have "calls (snd (install_poetry_package sys pkg virtualenv quiet w)) = calls w @ (cs @ ds)
        \<and> list_all P (cs @ ds)" by simp
    then show ?thesis by blast
  qed
qed

lemma appends_calls_install_pkg_dependencies:
  assumes "\<And>cmd. P (cmd, location pkg,
              (case virtualenv of None \<Rightarrow> venv_path sys (name pkg) (location pkg) | Some v \<Rightarrow> v))"
  shows "appends_calls P (install_pkg_dependencies sys pkg deps virtualenv)"
  unfolding install_pkg_dependencies_def Let_def
  by (intro appends_calls_and_then appends_calls_try_finally appends_calls_when_do
        appends_calls_rename appends_calls_copy appends_calls_write_file
        appends_calls_install_poetry_package assms)

lemma appends_calls_install_bare_pkg:
  assumes "\<And>cmd. P (cmd, location pkg,
              (case virtualenv of None \<Rightarrow> venv_path sys (name pkg) (location pkg) | Some v \<Rightarrow> v))"
  shows "appends_calls P (install_bare_pkg sys pkg virtualenv)"
  unfolding install_bare_pkg_def
  by (intro appends_calls_mask_file appends_calls_and_then appends_calls_write_file
        appends_calls_install_poetry_package assms)

lemma appends_calls_install_local_pkgs:
  "appends_calls (\<lambda>c. fst (snd c) \<in> location ` set pkgs \<and> snd (snd c) = venv)
     (install_local_pkgs sys pkgs venv)"
proof (induction pkgs)
  case Nil
  show ?case by (rule appends_callsI) simp
next
  case (Cons pkg pkgs)
  let ?P = "\<lambda>c. fst (snd c) \<in> location ` set (pkg # pkgs) \<and> snd (snd c) = venv"
  have a: "appends_calls ?P (install_bare_pkg sys pkg (Some venv))"
    by (rule appends_calls_install_bare_pkg) simp
  have b: "appends_calls ?P (install_local_pkgs sys pkgs venv)"
  proof (rule appends_callsI)
    fix w
    from appends_callsD [OF Cons.IH, of w] obtain cs where
      cs: "calls (snd (install_local_pkgs sys pkgs venv w)) = calls w @ cs"
          "list_all (\<lambda>c. fst (snd c) \<in> location ` set pkgs \<and> snd (snd c) = venv) cs" by auto
    then have "list_all ?P cs" by (auto simp: list_all_iff)
    with cs show "\<exists>cs. calls (snd (install_local_pkgs sys pkgs venv w)) = calls w @ cs \<and> list_all ?P cs"
      by blast
  qed
  have "install_local_pkgs sys (pkg # pkgs) venv
          = and_then (install_bare_pkg sys pkg (Some venv)) (install_local_pkgs sys pkgs venv)"
    by (rule ext) (simp add: and_then_def)
  then show ?case using appends_calls_and_then [OF a b] by simp
qed

lemma conflicting_aggregate:
  "aggregate example_model conflicting_workspace False
     = Inl (IncompatibleDependencyError IncompatibleSpecs)"
  by code_simp

text \<open>
  Claim C6. When the aggregation raises, \<open>install\<close> returns that error in an unchanged
  world: no file is touched and no external command is run; the same holds when the target
  is not among the discovered packages. Otherwise the external
  commands of the invocation are those of the target's cached/merged install, all run in
  the target's directory, followed by those of the bare installs of the other local
  packages, run in their directories with the target's virtual environment; the bare
  installs start from the world the finished target install returned, and do not start at
  all when it raised.
\<close>

theorem install_order:
  "(aggregate vm packages ignore_invalid_dependency = Inl e
      \<longrightarrow> install sys vm packages package ignore_invalid_dependency w = (Inl e, w))
   \<and> (aggregate vm packages ignore_invalid_dependency = Inr st \<and> map_of packages package = None
      \<longrightarrow> install sys vm packages package ignore_invalid_dependency w = (Inl (KeyError package), w))
   \<and> (aggregate vm packages ignore_invalid_dependency = Inr st \<and> map_of packages package = Some target
      \<longrightarrow> (\<exists>r w1 ct cs.
             install_pkg_dependencies sys target (merged_requirements st) None w = (r, w1)
           \<and> calls w1 = calls w @ ct
           \<and> list_all (\<lambda>c. fst (snd c) = location target) ct
           \<and> calls (snd (install sys vm packages package ignore_invalid_dependency w))
               = calls w @ ct @ cs
           \<and> list_all (\<lambda>c. fst (snd c) \<in> location ` set (filter (\<lambda>pkg. name pkg \<noteq> package)
                                                              (dict_values packages))
                         \<and> snd (snd c) = venv_path sys (name target) (location target)) cs
           \<and> (case r of
                 Inl e \<Rightarrow> cs = []
                         \<and> install sys vm packages package ignore_invalid_dependency w = (Inl e, w1)
               | Inr u \<Rightarrow> install sys vm packages package ignore_invalid_dependency w
                           = install_local_pkgs sys
                               (filter (\<lambda>pkg. name pkg \<noteq> package) (dict_values packages))
                               (venv_path sys (name target) (location target)) w1)))"
proof (intro conjI impI)
  assume "aggregate vm packages ignore_invalid_dependency = Inl e"
  then show "install sys vm packages package ignore_invalid_dependency w = (Inl e, w)"
    by (simp add: install_def)
next
  assume "aggregate vm packages ignore_invalid_dependency = Inr st \<and> map_of packages package = None"
  then show "install sys vm packages package ignore_invalid_dependency w = (Inl (KeyError package), w)"
    by (simp add: install_def)
next
  assume h: "aggregate vm packages ignore_invalid_dependency = Inr st \<and> map_of packages package = Some target"
  let ?sib = "filter (\<lambda>pkg. name pkg \<noteq> package) (dict_values packages)"
  let ?venv = "venv_path sys (name target) (location target)"
  let ?Q = "\<lambda>c::string \<times> string \<times> string. fst (snd c) \<in> location ` set ?sib \<and> snd (snd c) = ?venv"
  obtain r w1 where ipd: "install_pkg_dependencies sys target (merged_requirements st) None w = (r, w1)"
    by (rule prod.exhaust)
  have "appends_calls (\<lambda>c. fst (snd c) = location target)
          (install_pkg_dependencies sys target (merged_requirements st) None)"
    by (rule appends_calls_install_pkg_dependencies) simp
  from appends_callsD [OF this, of w] ipd obtain ct where
    ct: "calls w1 = calls w @ ct" "list_all (\<lambda>c. fst (snd c) = location target) ct" by auto
  from appends_callsD [OF appends_calls_install_local_pkgs [of ?sib ?venv sys], of w1]
  obtain cs where
    cs: "calls (snd (install_local_pkgs sys ?sib ?venv w1)) = calls w1 @ cs" "list_all ?Q cs"
    by auto
  show "\<exists>r w1 ct cs.
             install_pkg_dependencies sys target (merged_requirements st) None w = (r, w1)
           \<and> calls w1 = calls w @ ct
           \<and> list_all (\<lambda>c. fst (snd c) = location target) ct
           \<and> calls (snd (install sys vm packages package ignore_invalid_dependency w))
               = calls w @ ct @ cs
           \<and> list_all ?Q cs
           \<and> (case r of
                 Inl e \<Rightarrow> cs = []
                         \<and> install sys vm packages package ignore_invalid_dependency w = (Inl e, w1)
               | Inr u \<Rightarrow> install sys vm packages package ignore_invalid_dependency w
                           = install_local_pkgs sys ?sib ?venv w1)"
  proof (cases r)
    case (Inl e)
    then have "install sys vm packages package ignore_invalid_dependency w = (Inl e, w1)"
      using h ipd by (simp add: install_def)
    with Inl ipd ct show ?thesis
      by (intro exI [of _ r] exI [of _ w1] exI [of _ ct] exI [of _ "[]"]) simp
  next
    case (Inr u)
    then have "install sys vm packages package ignore_invalid_dependency w
                 = install_local_pkgs sys ?sib ?venv w1"
      using h ipd by (simp add: install_def)
    with Inr ipd ct cs show ?thesis
      by (intro exI [of _ r] exI [of _ w1] exI [of _ ct] exI [of _ cs]) simp
  qed
qed

theorem install_order_witness:
  "aggregate example_model conflicting_workspace False
     = Inl (IncompatibleDependencyError IncompatibleSpecs)
   \<and> install example_system example_model conflicting_workspace ''core'' False
         (example_world [''/w/core'', ''/w/api''])
       = (Inl (IncompatibleDependencyError IncompatibleSpecs), example_world [''/w/core'', ''/w/api''])
   \<and> aggregate example_model example_workspace False
       = Inr \<lparr>thirdparty_pkgs = [(''numpy'', ({''core''}, [example_spec ''>=1.0'' None])),
                                 (''requests'', ({''api''}, [example_spec ''>=2.0'' None]))],
              invalid_thirdparty_pkgs = {}\<rparr>
   \<and> map_of example_workspace ''core''
       = Some (example_pkg ''core'' ''/w/core'' [(''numpy'', [example_spec ''>=1.0'' None])])
   \<and> calls (snd (install example_system example_model example_workspace ''core'' False
                    (example_world [''/w/core'', ''/w/api''])))
       = [(''poetry install'', ''/w/core'', ''/venvs/core''),
          (''poetry install -q'', ''/w/api'', ''/venvs/core'')]"
proof -
  have m: "map_of example_workspace ''core''
       = Some (example_pkg ''core'' ''/w/core'' [(''numpy'', [example_spec ''>=1.0'' None])])"
    by (simp add: example_workspace_def)
  have "install example_system example_model conflicting_workspace ''core'' False
         (example_world [''/w/core'', ''/w/api''])
       = (Inl (IncompatibleDependencyError IncompatibleSpecs), example_world [''/w/core'', ''/w/api''])"
    using install_order [of example_model conflicting_workspace False
            "IncompatibleDependencyError IncompatibleSpecs" example_system "''core''"
            "example_world [''/w/core'', ''/w/api'']"]
          conflicting_aggregate
    by simp
  moreover note install_order [of example_model example_workspace False _ example_system "''core''"
            "example_world [''/w/core'', ''/w/api'']"]
  ultimately show ?thesis
    using conflicting_aggregate example_aggregate m example_install by simp
qed

section \<open>Properties of the depth-first traversal\<close>

lemma successors_iff: "v \<in> set (successors g u) \<longleftrightarrow> (u, v) \<in> set (g_edges g)"
  by (auto simp: successors_def intro: rev_image_eqI)

lemma dfs_prefix: "\<exists>zs. dfs g stack visited = visited @ zs"
proof (induction g stack visited rule: dfs.induct)
  case (1 g visited)
  then show ?case by simp
next
  case (2 g x stack visited)
  show ?case
  proof (cases "x \<in> set visited")
    case True
    with 2 show ?thesis by simp
  next
    case False
    with 2 obtain zs where "dfs g (successors g x @ stack) (visited @ [x]) = (visited @ [x]) @ zs"
      by blast
    with False show ?thesis by simp
  qed
qed

lemma dfs_covers: "set visited \<union> set stack \<subseteq> set (dfs g stack visited)"
proof (induction g stack visited rule: dfs.induct)
  case (1 g visited)
  then show ?case by simp
next
  case (2 g x stack visited)
  show ?case
  proof (cases "x \<in> set visited")
    case True
    with 2 show ?thesis by auto
  next
    case False
    with 2 have "set (visited @ [x]) \<union> set (successors g x @ stack)
                   \<subseteq> set (dfs g (successors g x @ stack) (visited @ [x]))" by simp
    with False show ?thesis by auto
  qed
qed

lemma dfs_closed:
  "y \<in> set (dfs g stack visited) \<Longrightarrow> y \<notin> set visited \<Longrightarrow>
   set (successors g y) \<subseteq> set (dfs g stack visited)"
proof (induction g stack visited rule: dfs.induct)
  case (1 g visited)
  then show ?case by simp
next
  case (2 g x stack visited)
  show ?case
  proof (cases "x \<in> set visited")
    case True
    with 2 show ?thesis by simp
  next
    case False
    let ?r = "dfs g (successors g x @ stack) (visited @ [x])"
    have r: "dfs g (x # stack) visited = ?r" using False by simp
    show ?thesis
    proof (cases "y = x")
      case True
      have "set (successors g x) \<subseteq> set ?r"
        using dfs_covers [of "visited @ [x]" "successors g x @ stack" g] by auto
      with True r show ?thesis by simp
    next
      case ne: False
      from 2(3) r have "y \<in> set ?r" by simp
      moreover from 2(4) ne have "y \<notin> set (visited @ [x])" by simp
      ultimately have "set (successors g y) \<subseteq> set ?r" using 2(2) [OF False] by blast
      with r show ?thesis by simp
    qed
  qed
qed

lemma dfs_sound: "set (dfs g stack visited) \<subseteq> set visited \<union> (set (g_edges g))\<^sup>* `` set stack"
proof (induction g stack visited rule: dfs.induct)
  case (1 g visited)
  then show ?case by simp
next
  case (2 g x stack visited)
  show ?case
  proof (cases "x \<in> set visited")
    case True
    with 2 show ?thesis by auto
  next
    case False
    have "(set (g_edges g))\<^sup>* `` set (successors g x) \<subseteq> (set (g_edges g))\<^sup>* `` {x}"
      by (auto simp: successors_iff intro: converse_rtrancl_into_rtrancl)
    then have "(set (g_edges g))\<^sup>* `` set (successors g x @ stack)
                 \<subseteq> (set (g_edges g))\<^sup>* `` set (x # stack)"
      by auto
    moreover have "set (dfs g (successors g x @ stack) (visited @ [x]))
                 \<subseteq> set (visited @ [x]) \<union> (set (g_edges g))\<^sup>* `` set (successors g x @ stack)"
      using 2(2) [OF False] .
    moreover have "x \<in> (set (g_edges g))\<^sup>* `` set (x # stack)" by auto
    ultimately have "set (dfs g (successors g x @ stack) (visited @ [x]))
                 \<subseteq> set visited \<union> (set (g_edges g))\<^sup>* `` set (x # stack)"
      by (simp only: set_append list.set) blast
    with False show ?thesis by simp
  qed
qed

lemma dfs_distinct: "distinct visited \<Longrightarrow> distinct (dfs g stack visited)"
  by (induction g stack visited rule: dfs.induct) auto

lemma dfs_reachable: "set (dfs g stack []) = (set (g_edges g))\<^sup>* `` set stack"
proof
  show "set (dfs g stack []) \<subseteq> (set (g_edges g))\<^sup>* `` set stack"
    using dfs_sound [of g stack "[]"] by simp
  show "(set (g_edges g))\<^sup>* `` set stack \<subseteq> set (dfs g stack [])"
  proof
    fix y
    assume "y \<in> (set (g_edges g))\<^sup>* `` set stack"
    then obtain x where x: "x \<in> set stack" and xy: "(x, y) \<in> (set (g_edges g))\<^sup>*" by auto
    from xy show "y \<in> set (dfs g stack [])"
    proof (induction rule: rtrancl_induct)
      case base
      with x dfs_covers [of "[]" stack g] show ?case by auto
    next
      case (step y z)
      then have "z \<in> set (successors g y)" by (simp add: successors_iff)
      with dfs_closed [of y g stack "[]"] step show ?case by auto
    qed
  qed
qed

lemma dfs_preorder_nodes_set:
  "set (dfs_preorder_nodes g source) = (set (g_edges g))\<^sup>* `` {source}"
  using dfs_reachable [of g "[source]"] by (simp add: dfs_preorder_nodes_def del: dfs.simps)

lemma dfs_preorder_nodes_distinct: "distinct (dfs_preorder_nodes g source)"
  using dfs_distinct [of "[]" g "[source]"] by (simp add: dfs_preorder_nodes_def del: dfs.simps)

lemma dfs_preorder_nodes_first: "\<exists>nodes. dfs_preorder_nodes g source = source # nodes"
  using dfs_prefix [of g "successors g source" "[source]"] by (simp add: dfs_preorder_nodes_def)

lemma find_cycle_None: "find_cycle g = None \<longleftrightarrow> acyclic (set (g_edges g))"
proof
  assume n: "find_cycle g = None"
  show "acyclic (set (g_edges g))"
  proof (rule acyclicI, rule allI, rule notI)
    fix x
    assume "(x, x) \<in> (set (g_edges g))\<^sup>+"
    then obtain y where xy: "(x, y) \<in> set (g_edges g)" and yx: "(y, x) \<in> (set (g_edges g))\<^sup>*"
      by (auto dest: tranclD)
    from yx have "x \<in> set (dfs_preorder_nodes g y)" by (simp add: dfs_preorder_nodes_set)
    with xy n show False by (auto simp: find_cycle_def find_None_iff)
  qed
next
  assume a: "acyclic (set (g_edges g))"
  have "\<not> (u \<in> set (dfs_preorder_nodes g v))" if "(u, v) \<in> set (g_edges g)" for u v
  proof
    assume "u \<in> set (dfs_preorder_nodes g v)"
    then have "(v, u) \<in> (set (g_edges g))\<^sup>*" by (simp add: dfs_preorder_nodes_set)
    with that have "(u, u) \<in> (set (g_edges g))\<^sup>+" by (rule rtrancl_into_trancl2)
    with a show False by (simp add: acyclic_def)
  qed
  then show "find_cycle g = None" by (auto simp: find_cycle_def find_None_iff)
qed

section \<open>Properties of the dependency graph\<close>

lemma add_edge_edges: "set (g_edges (add_edge g u v)) = insert (u, v) (set (g_edges g))"
  by (auto simp: add_edge_def)

lemma add_edge_nodes: "g_nodes (add_edge g u v) = g_nodes g"
  by (simp add: add_edge_def)

lemma add_node_edges: "g_edges (add_node g n d) = g_edges g"
  by (simp add: add_node_def)

lemma add_node_keys: "set (dict_keys (g_nodes (add_node g n d))) = insert n (set (dict_keys (g_nodes g)))"
  by (simp add: add_node_def dict_set_keys)

lemma has_node_keys: "has_node g n \<longleftrightarrow> n \<in> set (dict_keys (g_nodes g))"
  by (simp add: has_node_def dict_contains_def dict_keys_def)

lemma dict_contains_keys: "dict_contains k d \<longleftrightarrow> k \<in> set (dict_keys d)"
  by (simp add: dict_contains_def dict_keys_def)

lemma named_nodes_add_node:
  "named_nodes g \<Longrightarrow> node_name d = n \<Longrightarrow> named_nodes (add_node g n d)"
proof -
  have "list_all (\<lambda>(k, d). node_name d = k) (AList.update n d xs)"
    if "list_all (\<lambda>(k, d). node_name d = k) xs" "node_name d = n" for xs
    using that by (induction xs) auto
  then show "named_nodes g \<Longrightarrow> node_name d = n \<Longrightarrow> named_nodes (add_node g n d)"
    by (simp add: named_nodes_def add_node_def dict_set_def)
qed

lemma named_nodes_add_edge: "named_nodes (add_edge g u v) = named_nodes g"
  by (simp add: named_nodes_def add_edge_nodes)

lemma named_nodes_lookup: "named_nodes g \<Longrightarrow> map_of (g_nodes g) k = Some d \<Longrightarrow> node_name d = k"
  by (auto simp: named_nodes_def list_all_iff dest: map_of_SomeD)

lemma link_dependency_result:
  assumes "link_dependency pkgs pkg (dep, specs) g = Inr g'"
  shows "set (g_edges g') = insert (name pkg, dep) (set (g_edges g))"
    and "set (dict_keys (g_nodes g')) = insert dep (set (dict_keys (g_nodes g)))"
    and "named_nodes g \<Longrightarrow> named_nodes g'"
proof -
  show "set (g_edges g') = insert (name pkg, dep) (set (g_edges g))"
    using assms
    by (auto simp: link_dependency_def add_edge_edges add_node_edges
          split: if_splits option.splits node_data.splits)
  show "set (dict_keys (g_nodes g')) = insert dep (set (dict_keys (g_nodes g)))"
    using assms
    by (auto simp: link_dependency_def add_edge_nodes add_node_keys has_node_keys
          split: if_splits option.splits node_data.splits)
  show "named_nodes g \<Longrightarrow> named_nodes g'"
  proof -
    assume n: "named_nodes g"
    show "named_nodes g'"
    proof (cases "has_node g dep")
      case False
      with assms n show ?thesis
        by (auto simp: link_dependency_def named_nodes_add_edge node_name_def
              intro!: named_nodes_add_node split: if_splits)
    next
      case True
      show ?thesis
      proof (cases "map_of (g_nodes g) dep")
        case None
        with assms n True show ?thesis
          by (auto simp: link_dependency_def named_nodes_add_edge)
      next
        case (Some d)
        show ?thesis
        proof (cases d)
          case (LocalPkg p)
          with assms n True Some show ?thesis
            by (auto simp: link_dependency_def named_nodes_add_edge)
        next
          case (ThirdPartyPkg tp)
          from named_nodes_lookup [OF n Some] ThirdPartyPkg have "tp_name tp = dep"
            by (simp add: node_name_def)
          with assms n True Some ThirdPartyPkg show ?thesis
            by (auto simp: link_dependency_def named_nodes_add_edge node_name_def
                  intro!: named_nodes_add_node)
        qed
      qed
    qed
  qed
qed

lemma link_dependency_succeeds:
  assumes "set (dict_keys pkgs) \<subseteq> set (dict_keys (g_nodes g))"
  shows "\<exists>g'. link_dependency pkgs pkg (dep, specs) g = Inr g'"
  using assms
  by (auto simp: link_dependency_def has_node_keys dict_contains_keys
        split: option.splits node_data.splits)

lemma link_dependencies_result:
  assumes "for_each (link_dependency pkgs pkg) deps g = Inr g'"
  shows "set (g_edges g') = set (g_edges g) \<union> Pair (name pkg) ` set (dict_keys deps)
         \<and> set (dict_keys (g_nodes g')) = set (dict_keys (g_nodes g)) \<union> set (dict_keys deps)
         \<and> (named_nodes g \<longrightarrow> named_nodes g')"
  using assms
proof (induction deps arbitrary: g)
  case Nil
  then show ?case by (simp add: dict_keys_def)
next
  case (Cons d deps)
  obtain dep specs where d: "d = (dep, specs)" by (cases d)
  from Cons.prems obtain g1 where
    s1: "link_dependency pkgs pkg (dep, specs) g = Inr g1"
    and s2: "for_each (link_dependency pkgs pkg) deps g1 = Inr g'"
    by (auto simp: d split: sum.splits)
  note a = link_dependency_result [OF s1]
  note b = Cons.IH [OF s2]
  from a b show ?case by (auto simp: d dict_keys_def)
qed

lemma link_packages_result:
  assumes "for_each (\<lambda>pkg. for_each (link_dependency pkgs pkg) (dependencies pkg)) ps g = Inr g'"
  shows "set (g_edges g')
           = set (g_edges g) \<union> (\<Union>pkg\<in>set ps. Pair (name pkg) ` set (dict_keys (dependencies pkg)))
         \<and> set (dict_keys (g_nodes g'))
           = set (dict_keys (g_nodes g)) \<union> (\<Union>pkg\<in>set ps. set (dict_keys (dependencies pkg)))
         \<and> (named_nodes g \<longrightarrow> named_nodes g')"
  using assms
proof (induction ps arbitrary: g)
  case Nil
  then show ?case by simp
next
  case (Cons p ps)
  from Cons.prems obtain g1 where
    s1: "for_each (link_dependency pkgs p) (dependencies p) g = Inr g1"
    and s2: "for_each (\<lambda>pkg. for_each (link_dependency pkgs pkg) (dependencies pkg)) ps g1 = Inr g'"
    by (auto split: sum.splits)
  note a = link_dependencies_result [OF s1]
  note b = Cons.IH [OF s2]
  from a b show ?case by auto
qed

lemma link_dependencies_succeeds:
  assumes "set (dict_keys pkgs) \<subseteq> set (dict_keys (g_nodes g))"
  shows "\<exists>g'. for_each (link_dependency pkgs pkg) deps g = Inr g'"
  using assms
proof (induction deps arbitrary: g)
  case Nil
  then show ?case by simp
next
  case (Cons d deps)
  obtain dep specs where d: "d = (dep, specs)" by (cases d)
  from link_dependency_succeeds [OF Cons.prems] obtain g1 where
    s1: "link_dependency pkgs pkg (dep, specs) g = Inr g1" by blast
  from link_dependency_result(2) [OF s1] Cons.prems
  have "set (dict_keys pkgs) \<subseteq> set (dict_keys (g_nodes g1))" by auto
  from Cons.IH [OF this] s1 show ?case by (simp add: d)
qed

lemma link_packages_succeeds:
  assumes "set (dict_keys pkgs) \<subseteq> set (dict_keys (g_nodes g))"
  shows "\<exists>g'. for_each (\<lambda>pkg. for_each (link_dependency pkgs pkg) (dependencies pkg)) ps g = Inr g'"
  using assms
proof (induction ps arbitrary: g)
  case Nil
  then show ?case by simp
next
  case (Cons p ps)
  from link_dependencies_succeeds [OF Cons.prems] obtain g1 where
    s1: "for_each (link_dependency pkgs p) (dependencies p) g = Inr g1" by blast
  from link_dependencies_result [OF s1] Cons.prems
  have "set (dict_keys pkgs) \<subseteq> set (dict_keys (g_nodes g1))" by auto
  from Cons.IH [OF this] s1 show ?case by simp
qed

lemma local_nodes:
  "g_edges (fold (\<lambda>pkg g. add_node g (name pkg) (LocalPkg pkg)) ps g) = g_edges g
   \<and> set (dict_keys (g_nodes (fold (\<lambda>pkg g. add_node g (name pkg) (LocalPkg pkg)) ps g)))
       = set (dict_keys (g_nodes g)) \<union> name ` set ps
   \<and> (named_nodes g \<longrightarrow> named_nodes (fold (\<lambda>pkg g. add_node g (name pkg) (LocalPkg pkg)) ps g))"
proof (induction ps arbitrary: g)
  case Nil
  then show ?case by simp
next
  case (Cons p ps)
  have "named_nodes g \<Longrightarrow> named_nodes (add_node g (name p) (LocalPkg p))"
    by (rule named_nodes_add_node) (simp_all add: node_name_def)
  with Cons [of "add_node g (name p) (LocalPkg p)"] show ?case
    by (auto simp: add_node_edges add_node_keys)
qed

lemma depends_on_alt:
  "depends_on pkgs = (\<Union>pkg\<in>set (dict_values pkgs). Pair (name pkg) ` set (dict_keys (dependencies pkg)))"
  by (auto simp: depends_on_def)

lemma keyed_by_name_keys: "keyed_by_name pkgs \<Longrightarrow> dict_keys pkgs = map name (dict_values pkgs)"
  by (induction pkgs) (auto simp: keyed_by_name_def dict_keys_def dict_values_def)

lemma linked_graph:
  assumes "for_each (\<lambda>pkg. for_each (link_dependency pkgs pkg) (dependencies pkg)) (dict_values pkgs)
             (fold (\<lambda>pkg g. add_node g (name pkg) (LocalPkg pkg)) (dict_values pkgs) empty_graph) = Inr g"
  shows "set (g_edges g) = depends_on pkgs"
    and "set (dict_keys (g_nodes g)) = name ` set (dict_values pkgs) \<union> snd ` depends_on pkgs"
    and "named_nodes g"
proof -
  let ?g0 = "fold (\<lambda>pkg g. add_node g (name pkg) (LocalPkg pkg)) (dict_values pkgs) empty_graph"
  note l = local_nodes [of "dict_values pkgs" empty_graph]
  have e0: "g_edges ?g0 = []" and k0: "set (dict_keys (g_nodes ?g0)) = name ` set (dict_values pkgs)"
    and n0: "named_nodes ?g0"
    using l by (simp_all add: empty_graph_def dict_keys_def named_nodes_def)
  note r = link_packages_result [OF assms]
  show "set (g_edges g) = depends_on pkgs"
    using r e0 by (simp add: depends_on_alt)
  have "snd ` depends_on pkgs = (\<Union>pkg\<in>set (dict_values pkgs). set (dict_keys (dependencies pkg)))"
    by (force simp: depends_on_alt)
  then show "set (dict_keys (g_nodes g)) = name ` set (dict_values pkgs) \<union> snd ` depends_on pkgs"
    using r k0 by simp
  show "named_nodes g" using r n0 by simp
qed

lemma linked_graph_exists:
  assumes "keyed_by_name pkgs"
  shows "\<exists>g. for_each (\<lambda>pkg. for_each (link_dependency pkgs pkg) (dependencies pkg)) (dict_values pkgs)
             (fold (\<lambda>pkg g. add_node g (name pkg) (LocalPkg pkg)) (dict_values pkgs) empty_graph) = Inr g"
proof (rule link_packages_succeeds)
  show "set (dict_keys pkgs)
          \<subseteq> set (dict_keys (g_nodes (fold (\<lambda>pkg g. add_node g (name pkg) (LocalPkg pkg))
                                         (dict_values pkgs) empty_graph)))"
    using local_nodes [of "dict_values pkgs" empty_graph] keyed_by_name_keys [OF assms]
    by simp
qed

lemma PkgGraph_linked:
  assumes "set (dict_keys (g_nodes g)) = name ` set (dict_values pkgs) \<union> snd ` depends_on pkgs"
    and "set (g_edges g) = depends_on pkgs"
  shows "PkgGraph g = g"
proof (cases "g_nodes g")
  case Nil
  with assms(1) have "snd ` depends_on pkgs = {}" by (simp add: dict_keys_def)
  with assms(2) have "g_edges g = []" by simp
  with Nil show ?thesis by (simp add: PkgGraph_def empty_graph_def)
next
  case (Cons a list)
  then show ?thesis by (simp add: PkgGraph_def)
qed

lemma from_pkgs_cases:
  assumes "keyed_by_name pkgs"
  shows "\<exists>g. set (g_edges g) = depends_on pkgs
           \<and> set (dict_keys (g_nodes g)) = name ` set (dict_values pkgs) \<union> snd ` depends_on pkgs
           \<and> named_nodes g
           \<and> from_pkgs pkgs = (if acyclic (depends_on pkgs) then Inr g else Inl CyclicDependencies)"
proof -
  from linked_graph_exists [OF assms] obtain g where
    g: "for_each (\<lambda>pkg. for_each (link_dependency pkgs pkg) (dependencies pkg)) (dict_values pkgs)
             (fold (\<lambda>pkg g. add_node g (name pkg) (LocalPkg pkg)) (dict_values pkgs) empty_graph) = Inr g"
    by blast
  note l = linked_graph [OF g]
  have "from_pkgs pkgs = (if acyclic (depends_on pkgs) then Inr g else Inl CyclicDependencies)"
  proof (cases "find_cycle g")
    case None
    then have "acyclic (depends_on pkgs)" using l(1) by (simp add: find_cycle_None)
    with None g show ?thesis
      by (simp add: from_pkgs_def PkgGraph_linked [OF l(2) l(1)])
  next
    case (Some c)
    then have "\<not> acyclic (depends_on pkgs)" using l(1) find_cycle_None [of g] by simp
    with Some g show ?thesis by (simp add: from_pkgs_def)
  qed
  with l show ?thesis by blast
qed

lemma from_pkgs_Inr:
  assumes "from_pkgs pkgs = Inr g"
  shows "set (g_edges g) = depends_on pkgs"
    and "set (dict_keys (g_nodes g)) = name ` set (dict_values pkgs) \<union> snd ` depends_on pkgs"
    and "named_nodes g"
    and "acyclic (set (g_edges g))"
proof -
  from assms obtain g1 where
    g1: "for_each (\<lambda>pkg. for_each (link_dependency pkgs pkg) (dependencies pkg)) (dict_values pkgs)
             (fold (\<lambda>pkg g. add_node g (name pkg) (LocalPkg pkg)) (dict_values pkgs) empty_graph) = Inr g1"
    and c: "find_cycle g1 = None" and p: "g = PkgGraph g1"
    by (auto simp: from_pkgs_def Let_def split: sum.splits option.splits)
  note l = linked_graph [OF g1]
  have "g = g1" using p PkgGraph_linked [OF l(2) l(1)] by simp
  with l c show "set (g_edges g) = depends_on pkgs"
    and "set (dict_keys (g_nodes g)) = name ` set (dict_values pkgs) \<union> snd ` depends_on pkgs"
    and "named_nodes g"
    and "acyclic (set (g_edges g))"
    by (simp_all add: find_cycle_None)
qed

lemma node_packages_nodes:
  assumes "set uids \<subseteq> set (dict_keys (g_nodes g))" and "named_nodes g"
  shows "\<exists>ds. node_packages g uids = Inr ds
           \<and> list_all2 (\<lambda>uid d. map_of (g_nodes g) uid = Some d) uids ds
           \<and> map node_name ds = uids"
  using assms(1)
proof (induction uids)
  case Nil
  then show ?case by simp
next
  case (Cons uid uids)
  then have "uid \<in> fst ` set (g_nodes g)" by (simp add: dict_keys_def)
  then obtain d where d: "map_of (g_nodes g) uid = Some d"
    by (metis domD dom_map_of_conv_image_fst)
  from Cons obtain ds where
    ds: "node_packages g uids = Inr ds"
        "list_all2 (\<lambda>uid d. map_of (g_nodes g) uid = Some d) uids ds"
        "map node_name ds = uids"
    by auto
  from named_nodes_lookup [OF assms(2) d] d ds show ?case by simp
qed

lemma reachable_acyclic:
  assumes "acyclic r"
  shows "r\<^sup>* `` {p} - {p} = {n. (p, n) \<in> r\<^sup>+}"
proof -
  have "n \<noteq> p" if "(p, n) \<in> r\<^sup>+" for n
    using assms that by (auto simp: acyclic_def)
  then show ?thesis
    by (auto dest: rtranclD intro: trancl_into_rtrancl)
qed

lemma partition_dependencies:
  "map ThirdPartyPkg (List.map_filter (\<lambda>d. case d of ThirdPartyPkg p \<Rightarrow> Some p | LocalPkg p \<Rightarrow> None) ds)
     = filter is_third_party ds
   \<and> map LocalPkg (List.map_filter (\<lambda>d. case d of LocalPkg p \<Rightarrow> Some p | ThirdPartyPkg p \<Rightarrow> None) ds)
     = filter (\<lambda>d. \<not> is_third_party d) ds"
  by (induction ds) (auto simp: List.map_filter_def is_third_party_def split: node_data.splits)

lemma from_pkgs_example: "from_pkgs example_workspace = Inr example_graph"
  by code_simp

text \<open>
  Claim C5. For a dictionary of local packages keyed by their names, \<open>from_pkgs\<close> raises
  the cyclic-dependency error when the declared dependency relation has a cycle of any
  length, in particular when a package depends on itself, and otherwise returns the graph
  whose edges are the declared dependencies and whose nodes are the local packages and
  the names they depend on.
\<close>

theorem from_pkgs_cycle:
  assumes "keyed_by_name pkgs"
  shows "((\<exists>n. (n, n) \<in> (depends_on pkgs)\<^sup>+) \<longrightarrow> from_pkgs pkgs = Inl CyclicDependencies)
       \<and> (\<not> (\<exists>n. (n, n) \<in> (depends_on pkgs)\<^sup>+) \<longrightarrow>
            (\<exists>g. from_pkgs pkgs = Inr g
               \<and> set (g_edges g) = depends_on pkgs
               \<and> set (dict_keys (g_nodes g)) = set (dict_keys pkgs) \<union> snd ` depends_on pkgs))
       \<and> (pkg \<in> set (dict_values pkgs) \<and> name pkg \<in> set (dict_keys (dependencies pkg))
            \<longrightarrow> from_pkgs pkgs = Inl CyclicDependencies)"
proof -
  from from_pkgs_cases [OF assms] obtain g where
    g: "set (g_edges g) = depends_on pkgs"
       "set (dict_keys (g_nodes g)) = name ` set (dict_values pkgs) \<union> snd ` depends_on pkgs"
       "from_pkgs pkgs = (if acyclic (depends_on pkgs) then Inr g else Inl CyclicDependencies)"
    by blast
  have k: "set (dict_keys pkgs) = name ` set (dict_values pkgs)"
    using keyed_by_name_keys [OF assms] by simp
  have a: "acyclic (depends_on pkgs) \<longleftrightarrow> \<not> (\<exists>n. (n, n) \<in> (depends_on pkgs)\<^sup>+)"
    by (simp add: acyclic_def)
  have self: "(name pkg, name pkg) \<in> (depends_on pkgs)\<^sup>+"
    if "pkg \<in> set (dict_values pkgs)" "name pkg \<in> set (dict_keys (dependencies pkg))"
    using that by (auto simp: depends_on_def)
  show ?thesis
  proof (intro conjI impI)
    assume "\<exists>n. (n, n) \<in> (depends_on pkgs)\<^sup>+"
    with g(3) a show "from_pkgs pkgs = Inl CyclicDependencies" by simp
  next
    assume "\<not> (\<exists>n. (n, n) \<in> (depends_on pkgs)\<^sup>+)"
    with g a k show "\<exists>g. from_pkgs pkgs = Inr g
               \<and> set (g_edges g) = depends_on pkgs
               \<and> set (dict_keys (g_nodes g)) = set (dict_keys pkgs) \<union> snd ` depends_on pkgs"
      by simp
  next
    assume "pkg \<in> set (dict_values pkgs) \<and> name pkg \<in> set (dict_keys (dependencies pkg))"
    then have "\<exists>n. (n, n) \<in> (depends_on pkgs)\<^sup>+" using self by blast
    with g(3) a show "from_pkgs pkgs = Inl CyclicDependencies" by simp
  qed
qed

theorem from_pkgs_cycle_witness:
  "keyed_by_name cyclic_workspace
   \<and> (''a'', ''a'') \<in> (depends_on cyclic_workspace)\<^sup>+
   \<and> from_pkgs cyclic_workspace = Inl CyclicDependencies
   \<and> keyed_by_name example_workspace
   \<and> \<not> (\<exists>n. (n, n) \<in> (depends_on example_workspace)\<^sup>+)
   \<and> (\<exists>g. from_pkgs example_workspace = Inr g
          \<and> set (g_edges g) = depends_on example_workspace
          \<and> set (dict_keys (g_nodes g)) = {''core'', ''api'', ''numpy'', ''requests''})"
proof -
  have k1: "keyed_by_name cyclic_workspace"
    by (simp add: keyed_by_name_def cyclic_workspace_def example_pkg_def)
  have k2: "keyed_by_name example_workspace"
    by (simp add: keyed_by_name_def example_workspace_def example_pkg_def)
  have "(''a'', ''b'') \<in> depends_on cyclic_workspace" "(''b'', ''a'') \<in> depends_on cyclic_workspace"
    by (simp_all add: depends_on_alt cyclic_workspace_def example_pkg_def dict_values_def dict_keys_def)
  then have c: "(''a'', ''a'') \<in> (depends_on cyclic_workspace)\<^sup>+" by auto
  note t1 = from_pkgs_cycle [OF k1]
  note t2 = from_pkgs_cycle [OF k2]
  from t1 c have r1: "from_pkgs cyclic_workspace = Inl CyclicDependencies" by blast
  have n: "\<not> (\<exists>n. (n, n) \<in> (depends_on example_workspace)\<^sup>+)"
    using t2 from_pkgs_example by auto
  with t2 obtain g where g: "from_pkgs example_workspace = Inr g"
      "set (g_edges g) = depends_on example_workspace"
      "set (dict_keys (g_nodes g)) = set (dict_keys example_workspace) \<union> snd ` depends_on example_workspace"
    by blast
  have "set (dict_keys (g_nodes g)) = {''core'', ''api'', ''numpy'', ''requests''}"
    using g(1) from_pkgs_example by (auto simp: dict_keys_def example_graph_def)
  with g k1 k2 c r1 n show ?thesis by blast
qed

text \<open>
  Claim C8. For a node \<open>p\<close> of a graph that \<open>from_pkgs\<close> returned, the traversal from \<open>p\<close>
  starts with \<open>p\<close>, and \<open>dependencies\<close> returns the packages of the remaining nodes in
  the traversal's order: each node reachable from \<open>p\<close> by one or more edges exactly once,
  and not \<open>p\<close>. \<open>third_party_dependencies\<close> and \<open>local_dependencies\<close> return the
  third-party and the local elements of that list, in its order; every element of the
  list is in exactly one of the two.
\<close>

theorem dependencies_reachable:
  assumes "from_pkgs pkgs = Inr g" and "has_node g p"
  shows "\<exists>uids ds tps ls.
           dfs_preorder_nodes g p = p # uids
         \<and> distinct (p # uids)
         \<and> set uids = {n. (p, n) \<in> (set (g_edges g))\<^sup>+}
         \<and> PkgGraph_dependencies g p = Inr ds
         \<and> map node_name ds = uids
         \<and> list_all2 (\<lambda>uid d. map_of (g_nodes g) uid = Some d) uids ds
         \<and> third_party_dependencies g p = Inr tps
         \<and> local_dependencies g p = Inr ls
         \<and> map ThirdPartyPkg tps = filter is_third_party ds
         \<and> map LocalPkg ls = filter (\<lambda>d. \<not> is_third_party d) ds"
proof -
  note g = from_pkgs_Inr [OF assms(1)]
  from dfs_preorder_nodes_first [of g p] obtain uids where
    uids: "dfs_preorder_nodes g p = p # uids" by blast
  have dist: "distinct (p # uids)"
    using dfs_preorder_nodes_distinct [of g p] uids by simp
  have reach: "set (p # uids) = (set (g_edges g))\<^sup>* `` {p}"
    using dfs_preorder_nodes_set [of g p] uids by simp
  have "set uids = (set (g_edges g))\<^sup>* `` {p} - {p}"
    using reach dist by auto
  then have s: "set uids = {n. (p, n) \<in> (set (g_edges g))\<^sup>+}"
    by (simp add: reachable_acyclic [OF g(4)])
  have "set uids \<subseteq> snd ` set (g_edges g)"
    using s by (auto dest!: tranclD2 intro: rev_image_eqI)
  then have "set uids \<subseteq> set (dict_keys (g_nodes g))"
    using g(1) g(2) by auto
  from node_packages_nodes [OF this g(3)] obtain ds where
    ds: "node_packages g uids = Inr ds"
        "list_all2 (\<lambda>uid d. map_of (g_nodes g) uid = Some d) uids ds"
        "map node_name ds = uids"
    by blast
  have dep: "PkgGraph_dependencies g p = Inr ds"
    using assms(2) uids ds(1) by (simp add: PkgGraph_dependencies_def)
  show ?thesis
    using uids dist s dep ds partition_dependencies [of ds]
    by (simp add: third_party_dependencies_def local_dependencies_def)
qed

theorem dependencies_reachable_witness:
  "from_pkgs example_workspace = Inr example_graph
   \<and> has_node example_graph ''api''
   \<and> dfs_preorder_nodes example_graph ''api'' = [''api'', ''core'', ''numpy'', ''requests'']
   \<and> {n. (''api'', n) \<in> (set (g_edges example_graph))\<^sup>+} = {''core'', ''numpy'', ''requests''}
   \<and> map_sum id (map node_name) (PkgGraph_dependencies example_graph ''api'')
       = Inr [''core'', ''numpy'', ''requests'']
   \<and> map_sum id (map tp_name) (third_party_dependencies example_graph ''api'')
       = Inr [''numpy'', ''requests'']
   \<and> map_sum id (map name) (local_dependencies example_graph ''api'') = Inr [''core'']"
proof -
  have h: "has_node example_graph ''api''" by code_simp
  have e1: "dfs_preorder_nodes example_graph ''api'' = [''api'', ''core'', ''numpy'', ''requests'']"
    by code_simp
  have e2: "map_sum id (map node_name) (PkgGraph_dependencies example_graph ''api'')
       = Inr [''core'', ''numpy'', ''requests'']"
    by code_simp
  have e3: "map_sum id (map tp_name) (third_party_dependencies example_graph ''api'')
       = Inr [''numpy'', ''requests'']"
    by code_simp
  have e4: "map_sum id (map name) (local_dependencies example_graph ''api'') = Inr [''core'']"
    by code_simp
  from dependencies_reachable [OF from_pkgs_example h] obtain uids where
    "dfs_preorder_nodes example_graph ''api'' = ''api'' # uids"
    "set uids = {n. (''api'', n) \<in> (set (g_edges example_graph))\<^sup>+}"
    by blast
  with e1 have "{n. (''api'', n) \<in> (set (g_edges example_graph))\<^sup>+} = {''core'', ''numpy'', ''requests''}"
    by auto
  with from_pkgs_example h e1 e2 e3 e4 show ?thesis by blast
qed

end
